theory Spec2Isabelle
  imports Main
begin

section \<open>Values built by the program\<close>

text \<open>
  The repository holds three variants of one module: \<^verbatim>\<open>src/index.ts\<close>, and two files
  whose names are not known, called here part 000 (the documented variant) and part 001.
  The builder classes are the same in all three but for \<^verbatim>\<open>Router.use\<close> of part 001;
  the closures they register and two of the marshalling steps differ.
\<close>

datatype variant = Index_ts | Part_000 | Part_001

text \<open>\<^verbatim>\<open>type Method = "get" | "post" | "put" | "delete"\<close>\<close>

datatype http_method = M_get | M_post | M_put | M_delete

text \<open>
  Function values handed to the builders, in first-order form: a function of the caller
  (named by an identifier of type \<open>'f\<close>, interpreted by an environment at request time) or
  the closure returned by one of the three marshalling factories for a description
  \<open>'d\<close>.
\<close>

datatype ('f, 'd) fn =
    UserFn 'f
  | MarshalParams 'd
  | MarshalQuery 'd
  | MarshalBody 'd

text \<open>
  The request handlers the builders create: the closure of \<^verbatim>\<open>then\<close> (of \<^verbatim>\<open>Router\<close> and
  of \<^verbatim>\<open>LeafRouter\<close>, which have the same body), of \<^verbatim>\<open>return\<close> and of \<^verbatim>\<open>finish\<close>, each
  holding the function it closes over, and a handler of the caller given to \<^verbatim>\<open>use\<close>.
\<close>

datatype ('f, 'd) handler =
    ThenHandler "('f, 'd) fn"
  | ReturnHandler "('f, 'd) fn"
  | FinishHandler "('f, 'd) fn"
  | RawHandler 'f

text \<open>
  The arguments of \<^verbatim>\<open>use(first: unknown, second?: unknown)\<close>: a subpath, a \<^verbatim>\<open>Router\<close>
  instance, an \<^verbatim>\<open>ExpressRouter\<close>, a handler function, or \<^verbatim>\<open>undefined\<close>.
\<close>

datatype ('f, 'd) arg =
    Str string
  | RouterArg nat
  | ExpressArg nat
  | FunArg "('f, 'd) handler"
  | Undefined

text \<open>
  What an \<^verbatim>\<open>ExpressRouter\<close> holds: the registrations made on it, in order. A call
  \<^verbatim>\<open>router.use(...)\<close> is kept with its arguments, a call \<^verbatim>\<open>router[method](path, ...)\<close>
  with its method, path and handlers.
\<close>

datatype ('f, 'd) layer =
    UseLayer "('f, 'd) arg list"
  | RouteLayer http_method string "('f, 'd) handler list"

section \<open>The builder objects and the store\<close>

record Consumable =
  consumed :: bool

record Router = Consumable +
  router :: nat

record ('f, 'd) LeafRouter = Consumable +
  leaf_router :: nat
  leaf_method :: http_method
  leaf_path :: string
  handlers :: "('f, 'd) handler list"

text \<open>
  Builders and Express routers are objects with identity: the store keeps each class in
  a list, and a reference is an index into it. A new object is appended, so its
  reference is the length of the list before.
\<close>

record ('f, 'd) store =
  routers :: "Router list"
  leaves :: "('f, 'd) LeafRouter list"
  express :: "('f, 'd) layer list list"

text \<open>
  \<open>UseAfterConsume\<close> is \<^verbatim>\<open>new Error("This Router has already been consumed.")\<close>.
  \<open>NoSuchObject\<close> is not an error of the program: it is what the model answers for a
  reference that the store does not hold, which no TypeScript program can form.
\<close>

datatype error = UseAfterConsume | NoSuchObject

datatype val = RouterRef nat | LeafRef nat | ExpressRef nat | Void

type_synonym ('a, 'f, 'd) build = "('f, 'd) store \<Rightarrow> (error + 'a) \<times> ('f, 'd) store"

definition succeed :: "'a \<Rightarrow> ('a, 'f, 'd) build" where
  "succeed x h = (Inr x, h)"

text \<open>Sequencing: a throw ends the method, and the store stays as it was at the throw.\<close>

definition and_then :: "('a, 'f, 'd) build \<Rightarrow> ('a \<Rightarrow> ('b, 'f, 'd) build) \<Rightarrow> ('b, 'f, 'd) build" where
  "and_then m k h = (case m h of (Inl e, h') \<Rightarrow> (Inl e, h') | (Inr x, h') \<Rightarrow> k x h')"

subsection \<open>Consumable\<close>

definition checkConsumed :: "'a Consumable_scheme \<Rightarrow> error + unit" where
  "checkConsumed this = (if consumed this then Inl UseAfterConsume else Inr ())"

definition consume :: "'a Consumable_scheme \<Rightarrow> error + 'a Consumable_scheme" where
  "consume this =
     (case checkConsumed this of
        Inl e \<Rightarrow> Inl e
      | Inr _ \<Rightarrow> Inr (this\<lparr>consumed := True\<rparr>))"

text \<open>The two methods on a \<^verbatim>\<open>Router\<close> and on a \<^verbatim>\<open>LeafRouter\<close> of the store.\<close>

definition get_Router :: "nat \<Rightarrow> (Router, 'f, 'd) build" where
  "get_Router this h =
     (if this < length (routers h) then (Inr (routers h ! this), h) else (Inl NoSuchObject, h))"

definition get_LeafRouter :: "nat \<Rightarrow> (('f, 'd) LeafRouter, 'f, 'd) build" where
  "get_LeafRouter this h =
     (if this < length (leaves h) then (Inr (leaves h ! this), h) else (Inl NoSuchObject, h))"

definition Router_checkConsumed :: "nat \<Rightarrow> (unit, 'f, 'd) build" where
  "Router_checkConsumed this =
     and_then (get_Router this) (\<lambda>obj h.
       case checkConsumed obj of
         Inl e \<Rightarrow> (Inl e, h)
       | Inr _ \<Rightarrow> (Inr (), h))"

definition Router_consume :: "nat \<Rightarrow> (unit, 'f, 'd) build" where
  "Router_consume this =
     and_then (get_Router this) (\<lambda>obj h.
       case consume obj of
         Inl e \<Rightarrow> (Inl e, h)
       | Inr obj' \<Rightarrow> (Inr (), h\<lparr>routers := (routers h)[this := obj']\<rparr>))"

definition LeafRouter_consume :: "nat \<Rightarrow> (unit, 'f, 'd) build" where
  "LeafRouter_consume this =
     and_then (get_LeafRouter this) (\<lambda>obj h.
       case consume obj of
         Inl e \<Rightarrow> (Inl e, h)
       | Inr obj' \<Rightarrow> (Inr (), h\<lparr>leaves := (leaves h)[this := obj']\<rparr>))"

subsection \<open>The Express router, as far as the builders call it\<close>

text \<open>
  Modelled from the spec: Express is not part of the repository. Of the host dispatch
  engine the spec says that it offers a primitive "register handler for method+path"
  operation and a "mount sub-handler-list at subpath" operation, on an ordered,
  append-only handler list. \<^verbatim>\<open>ExpressRouter()\<close> makes an empty list; \<^verbatim>\<open>router.use\<close> and
  \<^verbatim>\<open>router[method]\<close> append one registration. What Express itself checks about the
  arguments is not modelled.
\<close>

definition ExpressRouter :: "(nat, 'f, 'd) build" where
  "ExpressRouter h = (Inr (length (express h)), h\<lparr>express := express h @ [[]]\<rparr>)"

definition express_register :: "nat \<Rightarrow> ('f, 'd) layer \<Rightarrow> (unit, 'f, 'd) build" where
  "express_register r l h =
     (if r < length (express h)
      then (Inr (), h\<lparr>express := (express h)[r := express h ! r @ [l]]\<rparr>)
      else (Inl NoSuchObject, h))"

definition express_use :: "nat \<Rightarrow> ('f, 'd) arg list \<Rightarrow> (unit, 'f, 'd) build" where
  "express_use r args = express_register r (UseLayer args)"

definition express_route ::
  "nat \<Rightarrow> http_method \<Rightarrow> string \<Rightarrow> ('f, 'd) handler list \<Rightarrow> (unit, 'f, 'd) build" where
  "express_route r m p hs = express_register r (RouteLayer m p hs)"

subsection \<open>Router\<close>

text \<open>\<^verbatim>\<open>new Router(router?)\<close>: \<^verbatim>\<open>this.router = router ?? ExpressRouter()\<close>.\<close>

definition new_Router :: "nat option \<Rightarrow> (nat, 'f, 'd) build" where
  "new_Router r =
     and_then (case r of Some x \<Rightarrow> succeed x | None \<Rightarrow> ExpressRouter) (\<lambda>x h.
       (Inr (length (routers h)),
        h\<lparr>routers := routers h @ [\<lparr>consumed = False, router = x\<rparr>]\<rparr>))"

text \<open>\<^verbatim>\<open>new LeafRouter(router, method, path, handlers?)\<close>: \<^verbatim>\<open>handlers ?? []\<close>.\<close>

definition new_LeafRouter ::
  "nat \<Rightarrow> http_method \<Rightarrow> string \<Rightarrow> ('f, 'd) handler list option \<Rightarrow> (nat, 'f, 'd) build" where
  "new_LeafRouter r m p hs h =
     (Inr (length (leaves h)),
      h\<lparr>leaves := leaves h @
         [\<lparr>consumed = False, leaf_router = r, leaf_method = m, leaf_path = p,
           handlers = (case hs of Some l \<Rightarrow> l | None \<Rightarrow> [])\<rparr>]\<rparr>)"

definition Router_toExpress :: "nat \<Rightarrow> (nat, 'f, 'd) build" where
  "Router_toExpress this =
     and_then (Router_consume this) (\<lambda>_.
     and_then (get_Router this) (\<lambda>obj.
       succeed (router obj)))"

text \<open>\<^verbatim>\<open>if (x instanceof Router) { x = x.toExpress(); }\<close>\<close>

definition toExpress_if_Router :: "('f, 'd) arg \<Rightarrow> (('f, 'd) arg, 'f, 'd) build" where
  "toExpress_if_Router x =
     (case x of
        RouterArg d \<Rightarrow> and_then (Router_toExpress d) (\<lambda>e. succeed (ExpressArg e))
      | _ \<Rightarrow> succeed x)"

definition Router_use :: "nat \<Rightarrow> ('f, 'd) arg \<Rightarrow> ('f, 'd) arg \<Rightarrow> (nat, 'f, 'd) build" where
  "Router_use this first second =
     and_then (Router_consume this) (\<lambda>_.
     and_then (toExpress_if_Router first) (\<lambda>first'.
     and_then (toExpress_if_Router second) (\<lambda>second'.
     and_then (get_Router this) (\<lambda>obj.
     and_then (express_use (router obj) [first', second']) (\<lambda>_.
       new_Router (Some (router obj)))))))"

text \<open>Part 001 has \<^verbatim>\<open>use(fn)\<close> only: \<^verbatim>\<open>this.router.use(fn as any)\<close>.\<close>

definition Router_use_part001 :: "nat \<Rightarrow> 'f \<Rightarrow> (nat, 'f, 'd) build" where
  "Router_use_part001 this f =
     and_then (Router_consume this) (\<lambda>_.
     and_then (get_Router this) (\<lambda>obj.
     and_then (express_use (router obj) [FunArg (RawHandler f)]) (\<lambda>_.
       new_Router (Some (router obj)))))"

definition Router_then :: "nat \<Rightarrow> ('f, 'd) fn \<Rightarrow> (nat, 'f, 'd) build" where
  "Router_then this f =
     and_then (Router_consume this) (\<lambda>_.
     and_then (get_Router this) (\<lambda>obj.
     and_then (express_use (router obj) [FunArg (ThenHandler f)]) (\<lambda>_.
       new_Router (Some (router obj)))))"

text \<open>The body shared by \<^verbatim>\<open>get\<close>, \<^verbatim>\<open>post\<close>, \<^verbatim>\<open>put\<close> and \<^verbatim>\<open>delete\<close>.\<close>

definition Router_endpoint :: "http_method \<Rightarrow> nat \<Rightarrow> string \<Rightarrow> (nat, 'f, 'd) build" where
  "Router_endpoint m this p =
     and_then (Router_checkConsumed this) (\<lambda>_.
     and_then (get_Router this) (\<lambda>obj.
       new_LeafRouter (router obj) m p None))"

definition Router_get :: "nat \<Rightarrow> string \<Rightarrow> (nat, 'f, 'd) build" where
  "Router_get = Router_endpoint M_get"

definition Router_post :: "nat \<Rightarrow> string \<Rightarrow> (nat, 'f, 'd) build" where
  "Router_post = Router_endpoint M_post"

definition Router_put :: "nat \<Rightarrow> string \<Rightarrow> (nat, 'f, 'd) build" where
  "Router_put = Router_endpoint M_put"

definition Router_delete :: "nat \<Rightarrow> string \<Rightarrow> (nat, 'f, 'd) build" where
  "Router_delete = Router_endpoint M_delete"

subsection \<open>LeafRouter\<close>

definition LeafRouter_then :: "nat \<Rightarrow> ('f, 'd) fn \<Rightarrow> (nat, 'f, 'd) build" where
  "LeafRouter_then this f =
     and_then (LeafRouter_consume this) (\<lambda>_.
     and_then (get_LeafRouter this) (\<lambda>obj.
       new_LeafRouter (leaf_router obj) (leaf_method obj) (leaf_path obj)
         (Some (handlers obj @ [ThenHandler f]))))"

definition LeafRouter_return :: "nat \<Rightarrow> ('f, 'd) fn \<Rightarrow> (unit, 'f, 'd) build" where
  "LeafRouter_return this f =
     and_then (LeafRouter_consume this) (\<lambda>_.
     and_then (get_LeafRouter this) (\<lambda>obj.
       express_route (leaf_router obj) (leaf_method obj) (leaf_path obj)
         (handlers obj @ [ReturnHandler f])))"

definition LeafRouter_finish :: "nat \<Rightarrow> ('f, 'd) fn \<Rightarrow> (unit, 'f, 'd) build" where
  "LeafRouter_finish this f =
     and_then (LeafRouter_consume this) (\<lambda>_.
     and_then (get_LeafRouter this) (\<lambda>obj.
       express_route (leaf_router obj) (leaf_method obj) (leaf_path obj)
         (handlers obj @ [FinishHandler f])))"

subsection \<open>The calls of the builder interface\<close>

datatype ('f, 'd) call =
    New_Router "nat option"
  | New_ExpressRouter
  | R_use nat "('f, 'd) arg" "('f, 'd) arg"
  | R_use_part001 nat 'f
  | R_then nat "('f, 'd) fn"
  | R_get nat string
  | R_post nat string
  | R_put nat string
  | R_delete nat string
  | R_toExpress nat
  | L_then nat "('f, 'd) fn"
  | L_return nat "('f, 'd) fn"
  | L_finish nat "('f, 'd) fn"

definition as_val :: "('a \<Rightarrow> val) \<Rightarrow> ('a, 'f, 'd) build \<Rightarrow> (val, 'f, 'd) build" where
  "as_val c m = and_then m (\<lambda>x. succeed (c x))"

fun exec :: "('f, 'd) call \<Rightarrow> (val, 'f, 'd) build" where
  "exec (New_Router r) = as_val RouterRef (new_Router r)"
| "exec New_ExpressRouter = as_val ExpressRef ExpressRouter"
| "exec (R_use this first second) = as_val RouterRef (Router_use this first second)"
| "exec (R_use_part001 this f) = as_val RouterRef (Router_use_part001 this f)"
| "exec (R_then this f) = as_val RouterRef (Router_then this f)"
| "exec (R_get this p) = as_val LeafRef (Router_get this p)"
| "exec (R_post this p) = as_val LeafRef (Router_post this p)"
| "exec (R_put this p) = as_val LeafRef (Router_put this p)"
| "exec (R_delete this p) = as_val LeafRef (Router_delete this p)"
| "exec (R_toExpress this) = as_val ExpressRef (Router_toExpress this)"
| "exec (L_then this f) = as_val LeafRef (LeafRouter_then this f)"
| "exec (L_return this f) = as_val (\<lambda>_. Void) (LeafRouter_return this f)"
| "exec (L_finish this f) = as_val (\<lambda>_. Void) (LeafRouter_finish this f)"

text \<open>The builder a call is made on, and whether the call is one that consumes it.\<close>

datatype builder = OnRouter nat | OnLeaf nat

fun receiver :: "('f, 'd) call \<Rightarrow> builder option" where
  "receiver (New_Router r) = None"
| "receiver New_ExpressRouter = None"
| "receiver (R_use this first second) = Some (OnRouter this)"
| "receiver (R_use_part001 this f) = Some (OnRouter this)"
| "receiver (R_then this f) = Some (OnRouter this)"
| "receiver (R_get this p) = Some (OnRouter this)"
| "receiver (R_post this p) = Some (OnRouter this)"
| "receiver (R_put this p) = Some (OnRouter this)"
| "receiver (R_delete this p) = Some (OnRouter this)"
| "receiver (R_toExpress this) = Some (OnRouter this)"
| "receiver (L_then this f) = Some (OnLeaf this)"
| "receiver (L_return this f) = Some (OnLeaf this)"
| "receiver (L_finish this f) = Some (OnLeaf this)"

fun consuming :: "('f, 'd) call \<Rightarrow> bool" where
  "consuming (R_use this first second) = True"
| "consuming (R_use_part001 this f) = True"
| "consuming (R_then this f) = True"
| "consuming (R_toExpress this) = True"
| "consuming (L_then this f) = True"
| "consuming (L_return this f) = True"
| "consuming (L_finish this f) = True"
| "consuming _ = False"

text \<open>A program: calls one after the other, each on the store the one before left,
  whether it returned or threw (a caller may catch the error and go on).\<close>

fun run :: "('f, 'd) call list \<Rightarrow> ('f, 'd) store \<Rightarrow> ('f, 'd) store" where
  "run [] h = h"
| "run (c # cs) h = run cs (snd (exec c h))"

definition is_consumed :: "('f, 'd) store \<Rightarrow> builder \<Rightarrow> bool" where
  "is_consumed h b =
     (case b of
        OnRouter a \<Rightarrow> a < length (routers h) \<and> consumed (routers h ! a)
      | OnLeaf a \<Rightarrow> a < length (leaves h) \<and> consumed (leaves h ! a))"

definition empty_store :: "('f, 'd) store" where
  "empty_store = \<lparr>routers = [], leaves = [], express = []\<rparr>"

section \<open>Handling a request\<close>

text \<open>
  The request object, with the three facets the marshalling steps read, and the
  response, of which only the bodies given to \<^verbatim>\<open>res.send\<close> are kept. Handlers work on
  one request object: what a function does to it is seen by the handlers after it.
\<close>

record 'v request =
  req_method :: http_method
  url :: string
  params :: 'v
  query :: 'v
  body :: 'v
  other :: 'v

text \<open>What a function returns: a request object (the steps do) or any other value.\<close>

datatype 'v result = ReqResult "'v request" | ValResult 'v

record 'v response =
  sent :: "'v result list"

text \<open>
  How a call of a JavaScript function ends: it returns a value that is not a promise,
  it throws, or it returns a promise that is fulfilled, is rejected, or never settles.
\<close>

datatype ('a, 'e) completion = Returns 'a | Throws 'e | Resolves 'a | Rejects 'e | Pending

text \<open>
  \<^verbatim>\<open>await fn(...)\<close> inside an async function: the value, the exception raised at the
  \<^verbatim>\<open>await\<close> (a throw of the call itself or a rejection), or no resumption at all.
\<close>

datatype ('a, 'e) awaited = Value 'a | Raised 'e | Never

fun await :: "('a, 'e) completion \<Rightarrow> ('a, 'e) awaited" where
  "await (Returns a) = Value a"
| "await (Throws e) = Raised e"
| "await (Resolves a) = Value a"
| "await (Rejects e) = Raised e"
| "await Pending = Never"

text \<open>
  The environment of a request: what the caller's functions do, called as \<^verbatim>\<open>fn(req)\<close>,
  as \<^verbatim>\<open>fn(req, res)\<close> and as an Express handler, and \<^verbatim>\<open>marshal\<close> of the validation
  library, which is not part of the repository: \<open>marshal env v d\<close> is \<open>None\<close> when the
  value \<open>v\<close> matches the description \<open>d\<close>, and the error it throws otherwise.
\<close>

record ('f, 'd, 'v, 'e) env =
  user1 :: "'f \<Rightarrow> 'v request \<Rightarrow> 'v request \<times> ('v result, 'e) completion"
  user2 :: "'f \<Rightarrow> 'v request \<Rightarrow> 'v response
              \<Rightarrow> 'v request \<times> 'v response \<times> ('v result, 'e) completion"
  marshal :: "'v \<Rightarrow> 'd \<Rightarrow> 'e option"

subsection \<open>The marshalling steps\<close>

text \<open>
  \<^verbatim>\<open>(req) => { marshal(req.X, description); return req; }\<close>, for the facet \<open>X\<close> that the
  variant reads.
\<close>

definition marshal_step ::
  "('f, 'd, 'v, 'e) env \<Rightarrow> ('v request \<Rightarrow> 'v) \<Rightarrow> 'd \<Rightarrow> 'v request
     \<Rightarrow> 'v request \<times> ('v result, 'e) completion" where
  "marshal_step env facet description req =
     (case marshal env (facet req) description of
        Some e \<Rightarrow> (req, Throws e)
      | None \<Rightarrow> (req, Returns (ReqResult req)))"

text \<open>\<^verbatim>\<open>src/index.ts\<close> and part 001: all three call \<^verbatim>\<open>marshal(req.body, description)\<close>.\<close>

definition marshalParams_index where
  "marshalParams_index env description = marshal_step env body description"

definition marshalQuery_index where
  "marshalQuery_index env description = marshal_step env body description"

definition marshalBody_index where
  "marshalBody_index env description = marshal_step env body description"

text \<open>Part 000: \<^verbatim>\<open>req.params\<close>, \<^verbatim>\<open>req.query\<close> and \<^verbatim>\<open>req.body\<close>.\<close>

definition marshalParams_part000 where
  "marshalParams_part000 env description = marshal_step env params description"

definition marshalQuery_part000 where
  "marshalQuery_part000 env description = marshal_step env query description"

definition marshalBody_part000 where
  "marshalBody_part000 env description = marshal_step env body description"

text \<open>Calling a function value as \<^verbatim>\<open>fn(req)\<close>, and as \<^verbatim>\<open>fn(req, res)\<close>.\<close>

fun call1 ::
  "variant \<Rightarrow> ('f, 'd, 'v, 'e) env \<Rightarrow> ('f, 'd) fn \<Rightarrow> 'v request
     \<Rightarrow> 'v request \<times> ('v result, 'e) completion" where
  "call1 v env (UserFn f) req = user1 env f req"
| "call1 Part_000 env (MarshalParams d) req = marshalParams_part000 env d req"
| "call1 Part_000 env (MarshalQuery d) req = marshalQuery_part000 env d req"
| "call1 Part_000 env (MarshalBody d) req = marshalBody_part000 env d req"
| "call1 v env (MarshalParams d) req = marshalParams_index env d req"
| "call1 v env (MarshalQuery d) req = marshalQuery_index env d req"
| "call1 v env (MarshalBody d) req = marshalBody_index env d req"

fun call2 ::
  "variant \<Rightarrow> ('f, 'd, 'v, 'e) env \<Rightarrow> ('f, 'd) fn \<Rightarrow> 'v request \<Rightarrow> 'v response
     \<Rightarrow> 'v request \<times> 'v response \<times> ('v result, 'e) completion" where
  "call2 v env (UserFn f) req res = user2 env f req res"
| "call2 v env f req res = (case call1 v env f req of (req', c) \<Rightarrow> (req', res, c))"

subsection \<open>The handlers the builders register\<close>

text \<open>
  What a handler did with one request: the request and the response as it left them, the
  functions it called, its calls of \<^verbatim>\<open>next\<close> in order (\<open>None\<close> is \<^verbatim>\<open>next()\<close>, \<open>Some e\<close> is
  \<^verbatim>\<open>next(e)\<close>), and how the handler itself ended (an async handler returns a promise).
\<close>

record ('f, 'd, 'v, 'e) outcome =
  req_after :: "'v request"
  res_after :: "'v response"
  invoked :: "('f, 'd) fn list"
  next_calls :: "'e option list"
  settled :: "(unit, 'e) completion"

text \<open>
  \<^verbatim>\<open>src/index.ts\<close> and part 001, \<^verbatim>\<open>then\<close> of both classes:
  \<^verbatim>\<open>async (req, _res, next) => { await fn(req as T); next(); }\<close>
\<close>

definition then_handler_index ::
  "variant \<Rightarrow> ('f, 'd, 'v, 'e) env \<Rightarrow> ('f, 'd) fn \<Rightarrow> 'v request \<Rightarrow> 'v response
     \<Rightarrow> ('f, 'd, 'v, 'e) outcome" where
  "then_handler_index v env f req res =
     (case call1 v env f req of (req', c) \<Rightarrow>
        (case await c of
           Value _ \<Rightarrow>
             \<lparr>req_after = req', res_after = res, invoked = [f],
              next_calls = [None], settled = Resolves ()\<rparr>
         | Raised e \<Rightarrow>
             \<lparr>req_after = req', res_after = res, invoked = [f],
              next_calls = [], settled = Rejects e\<rparr>
         | Never \<Rightarrow>
             \<lparr>req_after = req', res_after = res, invoked = [f],
              next_calls = [], settled = Pending\<rparr>))"

text \<open>
  Part 000, \<^verbatim>\<open>then\<close> of both classes:
  \<^verbatim>\<open>async (req, _res, next) => { try { await fn(req as T); next(); } catch (e) { next(e); } }\<close>
\<close>

definition then_handler_part000 ::
  "variant \<Rightarrow> ('f, 'd, 'v, 'e) env \<Rightarrow> ('f, 'd) fn \<Rightarrow> 'v request \<Rightarrow> 'v response
     \<Rightarrow> ('f, 'd, 'v, 'e) outcome" where
  "then_handler_part000 v env f req res =
     (case call1 v env f req of (req', c) \<Rightarrow>
        (case await c of
           Value _ \<Rightarrow>
             \<lparr>req_after = req', res_after = res, invoked = [f],
              next_calls = [None], settled = Resolves ()\<rparr>
         | Raised e \<Rightarrow>
             \<lparr>req_after = req', res_after = res, invoked = [f],
              next_calls = [Some e], settled = Resolves ()\<rparr>
         | Never \<Rightarrow>
             \<lparr>req_after = req', res_after = res, invoked = [f],
              next_calls = [], settled = Pending\<rparr>))"

text \<open>
  \<^verbatim>\<open>src/index.ts\<close> and part 001, \<^verbatim>\<open>return\<close>:
  \<^verbatim>\<open>async (req, res) => { let reply = await fn(req as T); res.send(reply); }\<close>
\<close>

definition return_handler_index ::
  "variant \<Rightarrow> ('f, 'd, 'v, 'e) env \<Rightarrow> ('f, 'd) fn \<Rightarrow> 'v request \<Rightarrow> 'v response
     \<Rightarrow> ('f, 'd, 'v, 'e) outcome" where
  "return_handler_index v env f req res =
     (case call1 v env f req of (req', c) \<Rightarrow>
        (case await c of
           Value reply \<Rightarrow>
             \<lparr>req_after = req', res_after = res\<lparr>sent := sent res @ [reply]\<rparr>, invoked = [f],
              next_calls = [], settled = Resolves ()\<rparr>
         | Raised e \<Rightarrow>
             \<lparr>req_after = req', res_after = res, invoked = [f],
              next_calls = [], settled = Rejects e\<rparr>
         | Never \<Rightarrow>
             \<lparr>req_after = req', res_after = res, invoked = [f],
              next_calls = [], settled = Pending\<rparr>))"

text \<open>
  Part 000, \<^verbatim>\<open>return\<close>:
  \<^verbatim>\<open>async (req, res, next) => { try { let reply = await fn(req as T); res.send(reply); }
     catch (e) { next(e); } }\<close>
\<close>

definition return_handler_part000 ::
  "variant \<Rightarrow> ('f, 'd, 'v, 'e) env \<Rightarrow> ('f, 'd) fn \<Rightarrow> 'v request \<Rightarrow> 'v response
     \<Rightarrow> ('f, 'd, 'v, 'e) outcome" where
  "return_handler_part000 v env f req res =
     (case call1 v env f req of (req', c) \<Rightarrow>
        (case await c of
           Value reply \<Rightarrow>
             \<lparr>req_after = req', res_after = res\<lparr>sent := sent res @ [reply]\<rparr>, invoked = [f],
              next_calls = [], settled = Resolves ()\<rparr>
         | Raised e \<Rightarrow>
             \<lparr>req_after = req', res_after = res, invoked = [f],
              next_calls = [Some e], settled = Resolves ()\<rparr>
         | Never \<Rightarrow>
             \<lparr>req_after = req', res_after = res, invoked = [f],
              next_calls = [], settled = Pending\<rparr>))"

text \<open>
  \<^verbatim>\<open>src/index.ts\<close> and part 001, \<^verbatim>\<open>finish\<close>: \<^verbatim>\<open>(req, res) => fn(req as T, res)\<close>, which
  ends as the function does.
\<close>

fun forget :: "('a, 'e) completion \<Rightarrow> (unit, 'e) completion" where
  "forget (Returns a) = Returns ()"
| "forget (Throws e) = Throws e"
| "forget (Resolves a) = Resolves ()"
| "forget (Rejects e) = Rejects e"
| "forget Pending = Pending"

definition finish_handler_index ::
  "variant \<Rightarrow> ('f, 'd, 'v, 'e) env \<Rightarrow> ('f, 'd) fn \<Rightarrow> 'v request \<Rightarrow> 'v response
     \<Rightarrow> ('f, 'd, 'v, 'e) outcome" where
  "finish_handler_index v env f req res =
     (case call2 v env f req res of (req', res', c) \<Rightarrow>
        \<lparr>req_after = req', res_after = res', invoked = [f],
         next_calls = [], settled = forget c\<rparr>)"

text \<open>
  Part 000, \<^verbatim>\<open>finish\<close>:
  \<^verbatim>\<open>async (req, res, next) => { try { return await fn(req as T, res) } catch (e) { next(e); } }\<close>
\<close>

definition finish_handler_part000 ::
  "variant \<Rightarrow> ('f, 'd, 'v, 'e) env \<Rightarrow> ('f, 'd) fn \<Rightarrow> 'v request \<Rightarrow> 'v response
     \<Rightarrow> ('f, 'd, 'v, 'e) outcome" where
  "finish_handler_part000 v env f req res =
     (case call2 v env f req res of (req', res', c) \<Rightarrow>
        (case await c of
           Value _ \<Rightarrow>
             \<lparr>req_after = req', res_after = res', invoked = [f],
              next_calls = [], settled = Resolves ()\<rparr>
         | Raised e \<Rightarrow>
             \<lparr>req_after = req', res_after = res', invoked = [f],
              next_calls = [Some e], settled = Resolves ()\<rparr>
         | Never \<Rightarrow>
             \<lparr>req_after = req', res_after = res', invoked = [f],
              next_calls = [], settled = Pending\<rparr>))"

text \<open>
  Running a registered handler of the given variant. A handler of the caller is run by
  \<open>raw\<close>, which belongs to the caller as the environment does.
\<close>

fun run_handler ::
  "variant \<Rightarrow> ('f, 'd, 'v, 'e) env
     \<Rightarrow> ('f \<Rightarrow> 'v request \<Rightarrow> 'v response \<Rightarrow> ('f, 'd, 'v, 'e) outcome)
     \<Rightarrow> ('f, 'd) handler \<Rightarrow> 'v request \<Rightarrow> 'v response \<Rightarrow> ('f, 'd, 'v, 'e) outcome" where
  "run_handler Part_000 env raw (ThenHandler f) req res = then_handler_part000 Part_000 env f req res"
| "run_handler Part_000 env raw (ReturnHandler f) req res = return_handler_part000 Part_000 env f req res"
| "run_handler Part_000 env raw (FinishHandler f) req res = finish_handler_part000 Part_000 env f req res"
| "run_handler v env raw (ThenHandler f) req res = then_handler_index v env f req res"
| "run_handler v env raw (ReturnHandler f) req res = return_handler_index v env f req res"
| "run_handler v env raw (FinishHandler f) req res = finish_handler_index v env f req res"
| "run_handler v env raw (RawHandler f) req res = raw f req res"

subsection \<open>The dispatch engine\<close>

text \<open>
  Modelled from the spec: the dispatch engine is Express, which is not part of the
  repository. The spec says of it that it "accepts a path pattern and an ordered handler
  list, invokes handlers in order per incoming request", and that it gives each handler
  a "next"/continuation capability "used to advance to the following Step or to forward
  an error". So the engine runs the handlers of a list in order; it goes on to the
  following handler when the handler called \<^verbatim>\<open>next()\<close>, hands the error to the error
  channel and runs no further handler when it called \<^verbatim>\<open>next(e)\<close>, and runs no further
  handler when it did not call \<^verbatim>\<open>next\<close> at all.
\<close>

datatype 'e status = Passed | Forwarded 'e | Stopped

record ('f, 'd, 'v, 'e) handled =
  final_req :: "'v request"
  final_res :: "'v response"
  called :: "('f, 'd) fn list"
  status :: "'e status"

fun run_handlers ::
  "variant \<Rightarrow> ('f, 'd, 'v, 'e) env
     \<Rightarrow> ('f \<Rightarrow> 'v request \<Rightarrow> 'v response \<Rightarrow> ('f, 'd, 'v, 'e) outcome)
     \<Rightarrow> ('f, 'd) handler list \<Rightarrow> 'v request \<Rightarrow> 'v response \<Rightarrow> ('f, 'd, 'v, 'e) handled" where
  "run_handlers v env raw [] req res =
     \<lparr>final_req = req, final_res = res, called = [], status = Passed\<rparr>"
| "run_handlers v env raw (h # hs) req res =
     (let out = run_handler v env raw h req res in
      case next_calls out of
        [] \<Rightarrow>
          \<lparr>final_req = req_after out, final_res = res_after out,
           called = invoked out, status = Stopped\<rparr>
      | Some e # _ \<Rightarrow>
          \<lparr>final_req = req_after out, final_res = res_after out,
           called = invoked out, status = Forwarded e\<rparr>
      | None # _ \<Rightarrow>
          (let rest = run_handlers v env raw hs (req_after out) (res_after out)
           in rest\<lparr>called := invoked out @ called rest\<rparr>))"

text \<open>
  A request goes through the registrations of a router in their order. A function given
  to \<^verbatim>\<open>use\<close> alone is run for every request; a route is run when its method is the
  request's and its path matches the request's url (\<open>matches\<close> is the engine's path
  matching). A delegation or a registration under a subpath is resolved by the engine in
  ways the spec does not fix, and the model answers \<open>None\<close> for a list holding one.
\<close>

fun dispatch ::
  "variant \<Rightarrow> ('f, 'd, 'v, 'e) env
     \<Rightarrow> ('f \<Rightarrow> 'v request \<Rightarrow> 'v response \<Rightarrow> ('f, 'd, 'v, 'e) outcome)
     \<Rightarrow> (string \<Rightarrow> string \<Rightarrow> bool)
     \<Rightarrow> ('f, 'd) layer list \<Rightarrow> 'v request \<Rightarrow> 'v response
     \<Rightarrow> ('f, 'd, 'v, 'e) handled option" where
  "dispatch v env raw matches [] req res =
     Some \<lparr>final_req = req, final_res = res, called = [], status = Passed\<rparr>"
| "dispatch v env raw matches (UseLayer [FunArg h] # ls) req res =
     (let r = run_handlers v env raw [h] req res in
      if status r = Passed
      then map_option (\<lambda>rest. rest\<lparr>called := called r @ called rest\<rparr>)
             (dispatch v env raw matches ls (final_req r) (final_res r))
      else Some r)"
| "dispatch v env raw matches (RouteLayer m p hs # ls) req res =
     (if req_method req = m \<and> matches p (url req)
      then (let r = run_handlers v env raw hs req res in
            if status r = Passed
            then map_option (\<lambda>rest. rest\<lparr>called := called r @ called rest\<rparr>)
                   (dispatch v env raw matches ls (final_req r) (final_res r))
            else Some r)
      else dispatch v env raw matches ls req res)"
| "dispatch v env raw matches (UseLayer args # ls) req res = None"

subsection \<open>A chain of steps, as a program and as the spec describes its run\<close>

text \<open>\<^verbatim>\<open>r.then(s1).then(s2)...\<close> on a \<^verbatim>\<open>Router\<close> and on a \<^verbatim>\<open>LeafRouter\<close>.\<close>

fun Router_thens :: "nat \<Rightarrow> ('f, 'd) fn list \<Rightarrow> (nat, 'f, 'd) build" where
  "Router_thens this [] = succeed this"
| "Router_thens this (s # ss) = and_then (Router_then this s) (\<lambda>r. Router_thens r ss)"

fun LeafRouter_thens :: "nat \<Rightarrow> ('f, 'd) fn list \<Rightarrow> (nat, 'f, 'd) build" where
  "LeafRouter_thens this [] = succeed this"
| "LeafRouter_thens this (s # ss) = and_then (LeafRouter_then this s) (\<lambda>l. LeafRouter_thens l ss)"

text \<open>How a \<^verbatim>\<open>LeafRouter\<close> chain is ended: \<^verbatim>\<open>.return(f)\<close> or \<^verbatim>\<open>.finish(f)\<close>.\<close>

datatype ('f, 'd) terminal = Return "('f, 'd) fn" | Finish "('f, 'd) fn"

fun LeafRouter_end :: "nat \<Rightarrow> ('f, 'd) terminal \<Rightarrow> (unit, 'f, 'd) build" where
  "LeafRouter_end this (Return f) = LeafRouter_return this f"
| "LeafRouter_end this (Finish f) = LeafRouter_finish this f"

fun terminal_handler :: "('f, 'd) terminal \<Rightarrow> ('f, 'd) handler" where
  "terminal_handler (Return f) = ReturnHandler f"
| "terminal_handler (Finish f) = FinishHandler f"

fun terminal_fn :: "('f, 'd) terminal \<Rightarrow> ('f, 'd) fn" where
  "terminal_fn (Return f) = f"
| "terminal_fn (Finish f) = f"

text \<open>
  The program
  \<^verbatim>\<open>const r = new Router().then(s1)...then(sk); r[m](p).then(t1)...then(tn).return(f);
     return r.toExpress();\<close>
  or the same with \<^verbatim>\<open>.finish(f)\<close>.
\<close>

definition build_chain ::
  "('f, 'd) fn list \<Rightarrow> http_method \<Rightarrow> string \<Rightarrow> ('f, 'd) fn list \<Rightarrow> ('f, 'd) terminal
     \<Rightarrow> (nat, 'f, 'd) build" where
  "build_chain ss m p ts t =
     and_then (new_Router None) (\<lambda>r0.
     and_then (Router_thens r0 ss) (\<lambda>r.
     and_then (Router_endpoint m r p) (\<lambda>l0.
     and_then (LeafRouter_thens l0 ts) (\<lambda>l.
     and_then (LeafRouter_end l t) (\<lambda>_.
       Router_toExpress r)))))"

text \<open>
  The run of a chain in the spec's words: the functions are invoked in their order, each
  on the request the one before left, and a function that does not complete (it
  fails, or never settles) is the last one invoked.
\<close>

fun in_order_until_failure ::
  "variant \<Rightarrow> ('f, 'd, 'v, 'e) env \<Rightarrow> ('f, 'd) fn list \<Rightarrow> 'v request \<Rightarrow> ('f, 'd) fn list" where
  "in_order_until_failure v env [] req = []"
| "in_order_until_failure v env (s # ss) req =
     (case call1 v env s req of (req', c) \<Rightarrow>
        (case await c of
           Value _ \<Rightarrow> s # in_order_until_failure v env ss req'
         | _ \<Rightarrow> [s]))"

text \<open>
  Every function of the list completes when they are called in order, each on the request
  the one before left; and the request they leave.
\<close>

fun completes_all ::
  "variant \<Rightarrow> ('f, 'd, 'v, 'e) env \<Rightarrow> ('f, 'd) fn list \<Rightarrow> 'v request \<Rightarrow> bool" where
  "completes_all v env [] req = True"
| "completes_all v env (s # ss) req =
     (case call1 v env s req of (req', c) \<Rightarrow>
        (case await c of
           Value _ \<Rightarrow> completes_all v env ss req'
         | _ \<Rightarrow> False))"

fun request_after ::
  "variant \<Rightarrow> ('f, 'd, 'v, 'e) env \<Rightarrow> ('f, 'd) fn list \<Rightarrow> 'v request \<Rightarrow> 'v request" where
  "request_after v env [] req = req"
| "request_after v env (s # ss) req = request_after v env ss (fst (call1 v env s req))"

subsection \<open>A concrete environment, for the examples\<close>

text \<open>
  Values, descriptions and function names are numbers, errors are strings. A value
  matches a description when they are equal. Function 0 returns a promise that is
  rejected, function 1 one that is fulfilled with 42, any other function throws. A
  handler of the caller just calls \<^verbatim>\<open>next()\<close>. In the examples the engine's path matching is
  equality.
\<close>

definition example_env :: "(nat, nat, nat, string) env" where
  "example_env =
     \<lparr>user1 = (\<lambda>f req.
         if f = 0 then (req, Rejects ''denied'')
         else if f = 1 then (req, Resolves (ValResult 42))
         else (req, Throws ''boom'')),
      user2 = (\<lambda>f req res.
         if f = 0 then (req, res, Rejects ''denied'')
         else if f = 1 then (req, res\<lparr>sent := sent res @ [ValResult 42]\<rparr>, Resolves (ValResult 0))
         else (req, res, Throws ''boom'')),
      marshal = (\<lambda>v d. if v = d then None else Some ''does not match'')\<rparr>"

definition example_raw ::
  "nat \<Rightarrow> nat request \<Rightarrow> nat response \<Rightarrow> (nat, nat, nat, string) outcome" where
  "example_raw f req res =
     \<lparr>req_after = req, res_after = res, invoked = [], next_calls = [None], settled = Returns ()\<rparr>"

definition example_request :: "nat request" where
  "example_request =
     \<lparr>req_method = M_get, url = ''/hello'', params = 1, query = 2, body = 3, other = 0\<rparr>"

definition no_response :: "nat response" where
  "no_response = \<lparr>sent = []\<rparr>"

section \<open>Notions used in the statements\<close>

text \<open>
  \<open>grows h h'\<close>: every builder that is consumed in \<open>h\<close> is consumed in \<open>h'\<close>.
  \<open>keeps m\<close>: the action \<open>m\<close> never makes a consumed builder usable again.
\<close>

definition grows :: "('f, 'd) store \<Rightarrow> ('f, 'd) store \<Rightarrow> bool" where
  "grows h h' = (\<forall>b. is_consumed h b \<longrightarrow> is_consumed h' b)"

definition keeps :: "('a, 'f, 'd) build \<Rightarrow> bool" where
  "keeps m = (\<forall>h. grows h (snd (m h)))"

text \<open>
  \<open>quiet m\<close>: the action \<open>m\<close> leaves every Express router as it was, whether it returns or
  throws. \<open>fails_quietly m\<close>: it does so whenever it throws. \<open>never_fails m\<close>: it always
  returns.
\<close>

definition quiet :: "('a, 'f, 'd) build \<Rightarrow> bool" where
  "quiet m = (\<forall>h. express (snd (m h)) = express h)"

definition fails_quietly :: "('a, 'f, 'd) build \<Rightarrow> bool" where
  "fails_quietly m = (\<forall>h e. fst (m h) = Inl e \<longrightarrow> express (snd (m h)) = express h)"

definition never_fails :: "('a, 'f, 'd) build \<Rightarrow> bool" where
  "never_fails m = (\<forall>h e. fst (m h) \<noteq> Inl e)"

text \<open>\<open>flags_only h h'\<close>: the two stores differ at most in the \<open>consumed\<close> flags of routers.\<close>

definition flags_only :: "('f, 'd) store \<Rightarrow> ('f, 'd) store \<Rightarrow> bool" where
  "flags_only h h' =
     (map router (routers h') = map router (routers h) \<and>
      leaves h' = leaves h \<and> express h' = express h)"

section \<open>Sequencing, and builders that stay consumed\<close>

lemma grows_refl: "grows h h"
  by (simp add: grows_def)

lemma grows_trans: "grows h h1 \<Longrightarrow> grows h1 h2 \<Longrightarrow> grows h h2"
  by (simp add: grows_def)

lemma keeps_and_then: "keeps m \<Longrightarrow> (\<And>x. keeps (k x)) \<Longrightarrow> keeps (and_then m k)"
  unfolding keeps_def and_then_def
  apply (intro allI)
  subgoal for h
    apply (cases "m h")
    subgoal for r h'
      apply (cases r)
       apply (simp, metis snd_conv)
      apply (simp)
      apply (metis grows_trans snd_conv)
      done
    done
  done

lemma keeps_succeed: "keeps (succeed x)"
  by (simp add: keeps_def succeed_def grows_refl)

lemma keeps_get_Router: "keeps (get_Router a)"
  by (simp add: keeps_def get_Router_def grows_refl)

lemma keeps_get_LeafRouter: "keeps (get_LeafRouter a)"
  by (simp add: keeps_def get_LeafRouter_def grows_refl)

lemma consumed_list_update:
  "j < length xs \<Longrightarrow> consumed (xs ! j) \<Longrightarrow> consumed (xs[a := x\<lparr>consumed := True\<rparr>] ! j)"
  by (cases "a = j") simp_all

lemma keeps_Router_checkConsumed: "keeps (Router_checkConsumed a)"
  unfolding Router_checkConsumed_def
  by (rule keeps_and_then[OF keeps_get_Router]) (simp add: keeps_def grows_refl split: sum.splits)

lemma keeps_Router_consume: "keeps (Router_consume a)"
  unfolding Router_consume_def
  apply (rule keeps_and_then[OF keeps_get_Router])
  apply (auto simp add: keeps_def grows_def is_consumed_def consume_def checkConsumed_def consumed_list_update split: sum.splits builder.splits if_splits)
  done

lemma keeps_LeafRouter_consume: "keeps (LeafRouter_consume a)"
  unfolding LeafRouter_consume_def
  apply (rule keeps_and_then[OF keeps_get_LeafRouter])
  apply (auto simp add: keeps_def grows_def is_consumed_def consume_def checkConsumed_def consumed_list_update split: sum.splits builder.splits if_splits)
  done

lemma keeps_ExpressRouter: "keeps ExpressRouter"
  by (auto simp: keeps_def grows_def is_consumed_def ExpressRouter_def split: builder.splits)

lemma keeps_express_register: "keeps (express_register r l)"
  by (auto simp: keeps_def grows_def is_consumed_def express_register_def split: builder.splits)

lemma keeps_new_LeafRouter: "keeps (new_LeafRouter r m p hs)"
  by (auto simp: keeps_def grows_def is_consumed_def new_LeafRouter_def nth_append split: builder.splits)

lemma keeps_new_Router: "keeps (new_Router r)"
  unfolding new_Router_def
  apply (rule keeps_and_then)
   apply (simp add: keeps_succeed keeps_ExpressRouter split: option.splits)
  apply (auto simp: keeps_def grows_def is_consumed_def nth_append split: builder.splits)
  done

lemmas keeps_intros = keeps_and_then keeps_succeed keeps_get_Router keeps_get_LeafRouter
  keeps_Router_checkConsumed keeps_Router_consume keeps_LeafRouter_consume keeps_ExpressRouter
  keeps_express_register keeps_new_LeafRouter keeps_new_Router

lemma keeps_Router_toExpress: "keeps (Router_toExpress a)"
  unfolding Router_toExpress_def by (intro keeps_intros)

lemma keeps_toExpress_if_Router: "keeps (toExpress_if_Router x)"
  unfolding toExpress_if_Router_def by (cases x) (simp_all add: keeps_intros keeps_Router_toExpress)

lemma keeps_exec: "keeps (exec c)"
  by (cases c) (simp_all add: as_val_def Router_use_def Router_use_part001_def Router_then_def
      Router_get_def Router_post_def Router_put_def Router_delete_def Router_endpoint_def
      LeafRouter_then_def LeafRouter_return_def LeafRouter_finish_def express_use_def express_route_def
      keeps_intros keeps_Router_toExpress keeps_toExpress_if_Router)

lemma grows_run: "grows h (run cs h)"
proof (induction cs arbitrary: h)
  case Nil
  show ?case by (simp add: grows_refl)
next
  case (Cons c cs)
  have "grows h (snd (exec c h))" using keeps_exec[of c] by (simp add: keeps_def)
  with Cons show ?case by (auto intro: grows_trans)
qed

lemma and_then_Inl: "m h = (Inl e, h') \<Longrightarrow> and_then m k h = (Inl e, h')"
  by (simp add: and_then_def)

lemma and_then_Inr: "m h = (Inr x, h') \<Longrightarrow> and_then m k h = k x h'"
  by (simp add: and_then_def)

lemma and_then_InrD:
  "and_then m k h = (Inr v, h2) \<Longrightarrow> \<exists>x h1. m h = (Inr x, h1) \<and> k x h1 = (Inr v, h2)"
  by (auto simp: and_then_def split: prod.splits sum.splits)

lemma Router_consume_consumed:
  "is_consumed h (OnRouter a) \<Longrightarrow> Router_consume a h = (Inl UseAfterConsume, h)"
  by (simp add: is_consumed_def Router_consume_def and_then_def get_Router_def consume_def checkConsumed_def)

lemma Router_checkConsumed_consumed:
  "is_consumed h (OnRouter a) \<Longrightarrow> Router_checkConsumed a h = (Inl UseAfterConsume, h)"
  by (simp add: is_consumed_def Router_checkConsumed_def and_then_def get_Router_def checkConsumed_def)

lemma LeafRouter_consume_consumed:
  "is_consumed h (OnLeaf a) \<Longrightarrow> LeafRouter_consume a h = (Inl UseAfterConsume, h)"
  by (simp add: is_consumed_def LeafRouter_consume_def and_then_def get_LeafRouter_def consume_def checkConsumed_def)

lemma Router_consume_Inr:
  "Router_consume a h = (Inr u, h1) \<Longrightarrow> is_consumed h1 (OnRouter a)"
  by (auto simp: is_consumed_def Router_consume_def and_then_def get_Router_def consume_def checkConsumed_def
      split: if_splits)

lemma LeafRouter_consume_Inr:
  "LeafRouter_consume a h = (Inr u, h1) \<Longrightarrow> is_consumed h1 (OnLeaf a)"
  by (auto simp: is_consumed_def LeafRouter_consume_def and_then_def get_LeafRouter_def consume_def checkConsumed_def
      split: if_splits)

lemmas op_defs = as_val_def Router_use_def Router_use_part001_def Router_then_def
      Router_get_def Router_post_def Router_put_def Router_delete_def Router_endpoint_def
      Router_toExpress_def LeafRouter_then_def LeafRouter_return_def LeafRouter_finish_def

lemma exec_on_consumed:
  "is_consumed h b \<Longrightarrow> receiver c = Some b \<Longrightarrow> exec c h = (Inl UseAfterConsume, h)"
  by (cases c)
     (simp_all add: op_defs and_then_Inl Router_consume_consumed Router_checkConsumed_consumed
        LeafRouter_consume_consumed)


lemma keeps_after:
  assumes "m h = (Inr u, h1)" "is_consumed h1 b" "keeps (k u)"
  shows "is_consumed (snd (and_then m k h)) b"
  using assms by (simp add: and_then_def keeps_def grows_def)

lemma as_val_snd: "snd (as_val c m h) = snd (m h)"
  by (simp add: as_val_def and_then_def succeed_def split: prod.splits sum.splits)

lemma as_val_Inr: "fst (as_val c m h) = Inr v \<Longrightarrow> \<exists>x. fst (m h) = Inr x"
  by (auto simp add: as_val_def and_then_def succeed_def split: prod.splits sum.splits)

lemma Router_consume_first:
  assumes "fst (and_then (Router_consume a) k h) = Inr x" "\<And>u. keeps (k u)"
  shows "is_consumed (snd (and_then (Router_consume a) k h)) (OnRouter a)"
proof (cases "Router_consume a h")
  case (Pair r h1)
  with assms(1) obtain u where "r = Inr u" by (cases r) (simp_all add: and_then_def)
  with Pair have "Router_consume a h = (Inr u, h1)" by simp
  then show ?thesis using Router_consume_Inr assms(2) by (blast intro: keeps_after)
qed

lemma LeafRouter_consume_first:
  assumes "fst (and_then (LeafRouter_consume a) k h) = Inr x" "\<And>u. keeps (k u)"
  shows "is_consumed (snd (and_then (LeafRouter_consume a) k h)) (OnLeaf a)"
proof (cases "LeafRouter_consume a h")
  case (Pair r h1)
  with assms(1) obtain u where "r = Inr u" by (cases r) (simp_all add: and_then_def)
  with Pair have "LeafRouter_consume a h = (Inr u, h1)" by simp
  then show ?thesis using LeafRouter_consume_Inr assms(2) by (blast intro: keeps_after)
qed

lemmas keeps_all = keeps_intros keeps_Router_toExpress keeps_toExpress_if_Router

lemma exec_consumes:
  assumes "consuming c" "receiver c = Some b" "fst (exec c h) = Inr v"
  shows "is_consumed (snd (exec c h)) b"
proof (cases c)
  case (R_use this f s)
  with assms show ?thesis
    by (auto simp: as_val_snd Router_use_def express_use_def dest!: as_val_Inr
        intro!: Router_consume_first keeps_all)
next
  case (R_use_part001 this f)
  with assms show ?thesis
    by (auto simp: as_val_snd Router_use_part001_def express_use_def dest!: as_val_Inr
        intro!: Router_consume_first keeps_all)
next
  case (R_then this f)
  with assms show ?thesis
    by (auto simp: as_val_snd Router_then_def express_use_def dest!: as_val_Inr
        intro!: Router_consume_first keeps_all)
next
  case (R_toExpress this)
  with assms show ?thesis
    by (auto simp: as_val_snd Router_toExpress_def dest!: as_val_Inr
        intro!: Router_consume_first keeps_all)
next
  case (L_then this f)
  with assms show ?thesis
    by (auto simp: as_val_snd LeafRouter_then_def dest!: as_val_Inr
        intro!: LeafRouter_consume_first keeps_all)
next
  case (L_return this f)
  with assms show ?thesis
    by (auto simp: as_val_snd LeafRouter_return_def express_route_def dest!: as_val_Inr
        intro!: LeafRouter_consume_first keeps_all)
next
  case (L_finish this f)
  with assms show ?thesis
    by (auto simp: as_val_snd LeafRouter_finish_def express_route_def dest!: as_val_Inr
        intro!: LeafRouter_consume_first keeps_all)
qed (use assms in simp_all)

text \<open>The definitions a concrete program is evaluated with.\<close>

lemmas eval_defs = as_val_def Router_use_def Router_use_part001_def Router_then_def
  Router_get_def Router_post_def Router_put_def Router_delete_def Router_endpoint_def
  Router_toExpress_def LeafRouter_then_def LeafRouter_return_def LeafRouter_finish_def
  toExpress_if_Router_def new_Router_def new_LeafRouter_def express_use_def express_route_def
  express_register_def ExpressRouter_def Router_consume_def Router_checkConsumed_def
  LeafRouter_consume_def get_Router_def get_LeafRouter_def consume_def checkConsumed_def
  and_then_def succeed_def empty_store_def is_consumed_def

section \<open>The consume-once discipline\<close>

text \<open>
  Claim C1. Once a consuming call (\<^verbatim>\<open>use\<close>, \<^verbatim>\<open>then\<close>, \<^verbatim>\<open>toExpress\<close> of a \<^verbatim>\<open>Router\<close>;
  \<^verbatim>\<open>then\<close>, \<^verbatim>\<open>return\<close>, \<^verbatim>\<open>finish\<close> of a \<^verbatim>\<open>LeafRouter\<close>) has returned on a builder,
  every later call on that builder, after any calls \<open>cs\<close> in between, throws
  \<open>UseAfterConsume\<close>: a second consuming call, and also \<^verbatim>\<open>get\<close>, \<^verbatim>\<open>post\<close>, \<^verbatim>\<open>put\<close> and
  \<^verbatim>\<open>delete\<close>, which do not consume.
\<close>

theorem consumed_builder_rejects_every_call:
  assumes "consuming c" and "receiver c = Some b" and "exec c h = (Inr v, h1)"
    and "receiver c' = Some b"
  shows "exec c' (run cs h1) = (Inl UseAfterConsume, run cs h1)"
proof -
  from assms(1-3) have "is_consumed h1 b" using exec_consumes[of c b h v] by simp
  then have "is_consumed (run cs h1) b" using grows_run[of h1 cs] by (simp add: grows_def)
  then show ?thesis using assms(4) by (rule exec_on_consumed)
qed

theorem consumed_builder_rejects_every_call_witness:
  "consuming (R_toExpress 0 :: (nat, nat) call) \<and>
   receiver (R_toExpress 0 :: (nat, nat) call) = Some (OnRouter 0) \<and>
   exec (R_toExpress 0 :: (nat, nat) call) (run [New_Router None] empty_store) =
     (Inr (ExpressRef 0), \<lparr>routers = [\<lparr>consumed = True, router = 0\<rparr>], leaves = [], express = [[]]\<rparr>) \<and>
   receiver (R_get 0 ''/'' :: (nat, nat) call) = Some (OnRouter 0) \<and>
   exec (R_get 0 ''/'' :: (nat, nat) call)
     (run [New_Router None] \<lparr>routers = [\<lparr>consumed = True, router = 0\<rparr>], leaves = [], express = [[]]\<rparr>) =
     (Inl UseAfterConsume,
      run [New_Router None] \<lparr>routers = [\<lparr>consumed = True, router = 0\<rparr>], leaves = [], express = [[]]\<rparr>)"
proof -
  have 1: "exec (R_toExpress 0 :: (nat, nat) call) (run [New_Router None] empty_store) =
     (Inr (ExpressRef 0), \<lparr>routers = [\<lparr>consumed = True, router = 0\<rparr>], leaves = [], express = [[]]\<rparr>)"
    by (simp add: eval_defs)
  show ?thesis
    using consumed_builder_rejects_every_call[OF _ _ 1, of "OnRouter 0" "R_get 0 ''/'' :: (nat, nat) call" "[New_Router None]"] 1
    by simp
qed

lemma Router_toExpress_Inr:
  "Router_toExpress d h = (Inr e, h') \<Longrightarrow> is_consumed h' (OnRouter d)"
  using Router_consume_first[of d "\<lambda>_. and_then (get_Router d) (\<lambda>obj. succeed (router obj))" h e]
  by (simp add: Router_toExpress_def keeps_all)

lemma toExpress_if_Router_Inr:
  "toExpress_if_Router (RouterArg d) h = (Inr x, h') \<Longrightarrow> is_consumed h' (OnRouter d)"
  by (auto simp: toExpress_if_Router_def succeed_def dest!: and_then_InrD Router_toExpress_Inr)

lemma keepsD: "keeps m \<Longrightarrow> m h = (r, h') \<Longrightarrow> is_consumed h b \<Longrightarrow> is_consumed h' b"
  by (auto simp: keeps_def grows_def dest!: spec[of _ h])

lemma Router_use_consumes_delegate:
  assumes "Router_use this first second h = (Inr n, h1)"
    and "first = RouterArg d \<or> second = RouterArg d"
  shows "is_consumed h1 (OnRouter d)"
proof -
  let ?rest = "\<lambda>first' second'. and_then (get_Router this) (\<lambda>obj.
     and_then (express_use (router obj) [first', second']) (\<lambda>_.
       new_Router (Some (router obj))))"
  from assms(1) obtain u ha where a: "Router_consume this h = (Inr u, ha)"
    and "and_then (toExpress_if_Router first) (\<lambda>first'.
           and_then (toExpress_if_Router second) (\<lambda>second'. ?rest first' second')) ha = (Inr n, h1)"
    unfolding Router_use_def by (blast dest: and_then_InrD)
  then obtain f' hb where b: "toExpress_if_Router first ha = (Inr f', hb)"
    and "and_then (toExpress_if_Router second) (\<lambda>second'. ?rest f' second') hb = (Inr n, h1)"
    by (blast dest: and_then_InrD)
  then obtain s' hc where c: "toExpress_if_Router second hb = (Inr s', hc)"
    and r: "?rest f' s' hc = (Inr n, h1)"
    by (blast dest: and_then_InrD)
  have kr: "keeps (?rest f' s')" by (simp add: express_use_def keeps_all)
  from assms(2) have "is_consumed hc (OnRouter d)"
  proof
    assume "first = RouterArg d"
    with b have "is_consumed hb (OnRouter d)" by (simp add: toExpress_if_Router_Inr)
    with c show ?thesis using keepsD[OF keeps_toExpress_if_Router] by blast
  next
    assume "second = RouterArg d"
    with c show ?thesis by (simp add: toExpress_if_Router_Inr)
  qed
  with r show ?thesis using keepsD[OF kr] by blast
qed

lemma as_val_InrD: "as_val c m h = (Inr v, h') \<Longrightarrow> \<exists>x. m h = (Inr x, h') \<and> v = c x"
  by (auto simp: as_val_def succeed_def dest!: and_then_InrD)

text \<open>
  Claim C10. When \<^verbatim>\<open>use\<close> returns and one of its arguments (the delegate, given alone
  or after a subpath) is a \<^verbatim>\<open>Router\<close> \<open>d\<close>, then \<open>d\<close> has been consumed by the call: every
  later call on \<open>d\<close>, the method factories included, throws \<open>UseAfterConsume\<close>.
\<close>

theorem use_consumes_delegate:
  assumes "exec (R_use this first second) h = (Inr v, h1)"
    and "first = RouterArg d \<or> second = RouterArg d"
    and "receiver c' = Some (OnRouter d)"
  shows "exec c' (run cs h1) = (Inl UseAfterConsume, run cs h1)"
proof -
  from assms(1) obtain n where "Router_use this first second h = (Inr n, h1)"
    by (auto dest: as_val_InrD)
  then have "is_consumed h1 (OnRouter d)" using assms(2) by (rule Router_use_consumes_delegate)
  then have "is_consumed (run cs h1) (OnRouter d)" using grows_run[of h1 cs] by (simp add: grows_def)
  then show ?thesis using assms(3) by (rule exec_on_consumed)
qed

theorem use_consumes_delegate_witness:
  "exec (R_use 0 (Str ''/blog'') (RouterArg 1) :: (nat, nat) call)
     (run [New_Router None, New_Router None] empty_store) =
     (Inr (RouterRef 2),
      \<lparr>routers = [\<lparr>consumed = True, router = 0\<rparr>, \<lparr>consumed = True, router = 1\<rparr>,
                  \<lparr>consumed = False, router = 0\<rparr>],
       leaves = [],
       express = [[UseLayer [Str ''/blog'', ExpressArg 1]], []]\<rparr>) \<and>
   exec (R_post 1 ''/'' :: (nat, nat) call)
     \<lparr>routers = [\<lparr>consumed = True, router = 0\<rparr>, \<lparr>consumed = True, router = 1\<rparr>,
                 \<lparr>consumed = False, router = 0\<rparr>],
      leaves = [],
      express = [[UseLayer [Str ''/blog'', ExpressArg 1]], []]\<rparr> =
     (Inl UseAfterConsume,
      \<lparr>routers = [\<lparr>consumed = True, router = 0\<rparr>, \<lparr>consumed = True, router = 1\<rparr>,
                  \<lparr>consumed = False, router = 0\<rparr>],
       leaves = [],
       express = [[UseLayer [Str ''/blog'', ExpressArg 1]], []]\<rparr>)"
proof -
  have 1: "exec (R_use 0 (Str ''/blog'') (RouterArg 1) :: (nat, nat) call)
     (run [New_Router None, New_Router None] empty_store) =
     (Inr (RouterRef 2),
      \<lparr>routers = [\<lparr>consumed = True, router = 0\<rparr>, \<lparr>consumed = True, router = 1\<rparr>,
                  \<lparr>consumed = False, router = 0\<rparr>],
       leaves = [],
       express = [[UseLayer [Str ''/blog'', ExpressArg 1]], []]\<rparr>)"
    by (simp add: eval_defs)
  show ?thesis
    using use_consumes_delegate[OF 1, of 1 "R_post 1 ''/'' :: (nat, nat) call" "[]"] 1
    by simp
qed

section \<open>What a failing call leaves behind\<close>

lemma quiet_and_then:
  "quiet m \<Longrightarrow> (\<And>x. quiet (k x)) \<Longrightarrow> quiet (and_then m k)"
  unfolding quiet_def and_then_def
  apply (intro allI)
  subgoal for h
    apply (cases "m h")
    subgoal for r h'
      by (cases r) (simp, metis snd_conv, simp, metis snd_conv)
    done
  done

lemma quiet_fails_quietly: "quiet m \<Longrightarrow> fails_quietly m"
  by (simp add: quiet_def fails_quietly_def)

lemma never_fails_quietly: "never_fails m \<Longrightarrow> fails_quietly m"
  by (simp add: never_fails_def fails_quietly_def)

lemma fails_quietly_after_quiet:
  "quiet m \<Longrightarrow> (\<And>x. fails_quietly (k x)) \<Longrightarrow> fails_quietly (and_then m k)"
  unfolding quiet_def fails_quietly_def and_then_def
  apply (intro allI)
  subgoal for h e
    apply (cases "m h")
    subgoal for r h'
      apply (cases r)
       apply (simp, metis snd_conv)
      apply simp
      apply (metis snd_conv)
      done
    done
  done

lemma fails_quietly_before_total:
  "fails_quietly m \<Longrightarrow> (\<And>x. never_fails (k x)) \<Longrightarrow> fails_quietly (and_then m k)"
  unfolding never_fails_def fails_quietly_def and_then_def
  apply (intro allI)
  subgoal for h e
    apply (cases "m h")
    subgoal for r h'
      apply (cases r)
       apply (simp, metis fst_conv snd_conv)
      apply simp
      done
    done
  done

lemma quiet_succeed: "quiet (succeed x)"
  by (simp add: quiet_def succeed_def)

lemma quiet_get_Router: "quiet (get_Router a)"
  by (simp add: quiet_def get_Router_def)

lemma quiet_get_LeafRouter: "quiet (get_LeafRouter a)"
  by (simp add: quiet_def get_LeafRouter_def)

lemma quiet_Router_checkConsumed: "quiet (Router_checkConsumed a)"
  unfolding Router_checkConsumed_def
  by (rule quiet_and_then[OF quiet_get_Router]) (simp add: quiet_def split: sum.splits)

lemma quiet_Router_consume: "quiet (Router_consume a)"
  unfolding Router_consume_def
  by (rule quiet_and_then[OF quiet_get_Router]) (simp add: quiet_def split: sum.splits)

lemma quiet_LeafRouter_consume: "quiet (LeafRouter_consume a)"
  unfolding LeafRouter_consume_def
  by (rule quiet_and_then[OF quiet_get_LeafRouter]) (simp add: quiet_def split: sum.splits)

lemma quiet_new_LeafRouter: "quiet (new_LeafRouter r m p hs)"
  by (simp add: quiet_def new_LeafRouter_def)

lemmas quiet_intros = quiet_and_then quiet_succeed quiet_get_Router quiet_get_LeafRouter
  quiet_Router_checkConsumed quiet_Router_consume quiet_LeafRouter_consume quiet_new_LeafRouter

lemma quiet_Router_toExpress: "quiet (Router_toExpress a)"
  unfolding Router_toExpress_def by (intro quiet_intros)

lemma quiet_toExpress_if_Router: "quiet (toExpress_if_Router x)"
  unfolding toExpress_if_Router_def
  by (cases x) (simp_all add: quiet_intros quiet_Router_toExpress)

lemma quiet_LeafRouter_then: "quiet (LeafRouter_then this f)"
  unfolding LeafRouter_then_def by (intro quiet_intros)

lemma quiet_Router_endpoint: "quiet (Router_endpoint m this p)"
  unfolding Router_endpoint_def by (intro quiet_intros)

lemma fails_quietly_express_register: "fails_quietly (express_register r l)"
  by (simp add: fails_quietly_def express_register_def)

lemma never_fails_succeed: "never_fails (succeed x)"
  by (simp add: never_fails_def succeed_def)

lemma never_fails_ExpressRouter: "never_fails ExpressRouter"
  by (simp add: never_fails_def ExpressRouter_def)

lemma never_fails_new_Router: "never_fails (new_Router r)"
  by (cases r) (simp_all add: never_fails_def new_Router_def and_then_def succeed_def ExpressRouter_def)

lemma fails_quietly_register_then_new:
  "fails_quietly (and_then (express_register r l) (\<lambda>_. new_Router r'))"
  by (intro fails_quietly_before_total fails_quietly_express_register never_fails_new_Router)

lemma fails_quietly_as_val: "fails_quietly m \<Longrightarrow> fails_quietly (as_val c m)"
  unfolding as_val_def
  by (intro fails_quietly_before_total never_fails_succeed)

lemma fails_quietly_exec: "fails_quietly (exec c)"
proof (cases c)
  case (New_Router r)
  then show ?thesis
    by (simp add: fails_quietly_as_val never_fails_quietly never_fails_new_Router)
next
  case New_ExpressRouter
  then show ?thesis
    by (simp add: fails_quietly_as_val never_fails_quietly never_fails_ExpressRouter)
next
  case (R_use this first second)
  then show ?thesis
    by (simp add: Router_use_def express_use_def)
       (intro fails_quietly_as_val fails_quietly_after_quiet fails_quietly_register_then_new
          quiet_Router_consume quiet_toExpress_if_Router quiet_get_Router)
next
  case (R_use_part001 this f)
  then show ?thesis
    by (simp add: Router_use_part001_def express_use_def)
       (intro fails_quietly_as_val fails_quietly_after_quiet fails_quietly_register_then_new
          quiet_Router_consume quiet_get_Router)
next
  case (R_then this f)
  then show ?thesis
    by (simp add: Router_then_def express_use_def)
       (intro fails_quietly_as_val fails_quietly_after_quiet fails_quietly_register_then_new
          quiet_Router_consume quiet_get_Router)
next
  case (L_return this f)
  then show ?thesis
    by (simp add: LeafRouter_return_def express_route_def)
       (intro fails_quietly_as_val fails_quietly_after_quiet fails_quietly_express_register
          quiet_LeafRouter_consume quiet_get_LeafRouter)
next
  case (L_finish this f)
  then show ?thesis
    by (simp add: LeafRouter_finish_def express_route_def)
       (intro fails_quietly_as_val fails_quietly_after_quiet fails_quietly_express_register
          quiet_LeafRouter_consume quiet_get_LeafRouter)
qed (simp_all add: fails_quietly_as_val quiet_fails_quietly quiet_Router_endpoint
      quiet_Router_toExpress quiet_LeafRouter_then
      Router_get_def Router_post_def Router_put_def Router_delete_def)

text \<open>
  Claim C7, as amended. A call on a builder that is already consumed throws
  \<open>UseAfterConsume\<close> before doing anything: the store is unchanged, and so is every
  compiled handler list. And whatever the reason for which a call throws
  \<open>UseAfterConsume\<close>, no handler has been registered when it does: every Express router
  is as it was before the call.
\<close>

theorem failing_call_registers_nothing:
  "(is_consumed h b \<and> receiver c = Some b \<longrightarrow> exec c h = (Inl UseAfterConsume, h)) \<and>
   (fst (exec c h) = Inl UseAfterConsume \<longrightarrow> express (snd (exec c h)) = express h)"
proof (intro conjI impI)
  assume "is_consumed h b \<and> receiver c = Some b"
  then show "exec c h = (Inl UseAfterConsume, h)" by (blast intro: exec_on_consumed)
next
  assume "fst (exec c h) = Inl UseAfterConsume"
  then show "express (snd (exec c h)) = express h"
    using fails_quietly_exec[of c] by (simp add: fails_quietly_def)
qed

theorem failing_call_registers_nothing_witness:
  "is_consumed \<lparr>routers = [\<lparr>consumed = True, router = 0\<rparr>], leaves = [],
                express = [[UseLayer [FunArg (ThenHandler (UserFn (7::nat)))]]]\<rparr> (OnRouter 0) \<and>
   receiver (R_then 0 (UserFn 8) :: (nat, nat) call) = Some (OnRouter 0) \<and>
   exec (R_then 0 (UserFn 8) :: (nat, nat) call)
     \<lparr>routers = [\<lparr>consumed = True, router = 0\<rparr>], leaves = [],
      express = [[UseLayer [FunArg (ThenHandler (UserFn 7))]]]\<rparr> =
     (Inl UseAfterConsume,
      \<lparr>routers = [\<lparr>consumed = True, router = 0\<rparr>], leaves = [],
       express = [[UseLayer [FunArg (ThenHandler (UserFn 7))]]]\<rparr>) \<and>
   fst (exec (R_then 0 (UserFn 8) :: (nat, nat) call)
     \<lparr>routers = [\<lparr>consumed = True, router = 0\<rparr>], leaves = [],
      express = [[UseLayer [FunArg (ThenHandler (UserFn 7))]]]\<rparr>) = Inl UseAfterConsume \<and>
   express (snd (exec (R_then 0 (UserFn 8) :: (nat, nat) call)
     \<lparr>routers = [\<lparr>consumed = True, router = 0\<rparr>], leaves = [],
      express = [[UseLayer [FunArg (ThenHandler (UserFn 7))]]]\<rparr>)) =
     [[UseLayer [FunArg (ThenHandler (UserFn 7))]]]"
  using failing_call_registers_nothing[of
      "\<lparr>routers = [\<lparr>consumed = True, router = 0\<rparr>], leaves = [],
        express = [[UseLayer [FunArg (ThenHandler (UserFn (7::nat)))]]]\<rparr> :: (nat, nat) store"
      "OnRouter 0" "R_then 0 (UserFn 8)"]
  by (simp add: is_consumed_def)

text \<open>
  Claim C7 as stated says that a call that fails with \<open>UseAfterConsume\<close> has done no
  other work. \<^verbatim>\<open>use\<close> of a usable router with a delegate that is already consumed throws
  \<open>UseAfterConsume\<close> from the delegate's \<^verbatim>\<open>toExpress\<close>, after it has consumed its own
  receiver: the store is not the one before the call, and \<^verbatim>\<open>get\<close> on the receiver, which
  returned before, now throws.
\<close>

theorem failed_use_has_consumed_its_receiver:
  "run [New_Router None, New_Router None, R_toExpress 1] (empty_store :: (nat, nat) store) =
     \<lparr>routers = [\<lparr>consumed = False, router = 0\<rparr>, \<lparr>consumed = True, router = 1\<rparr>],
      leaves = [], express = [[], []]\<rparr> \<and>
   exec (R_use 0 (RouterArg 1) Undefined :: (nat, nat) call)
     \<lparr>routers = [\<lparr>consumed = False, router = 0\<rparr>, \<lparr>consumed = True, router = 1\<rparr>],
      leaves = [], express = [[], []]\<rparr> =
     (Inl UseAfterConsume,
      \<lparr>routers = [\<lparr>consumed = True, router = 0\<rparr>, \<lparr>consumed = True, router = 1\<rparr>],
       leaves = [], express = [[], []]\<rparr>) \<and>
   snd (exec (R_use 0 (RouterArg 1) Undefined :: (nat, nat) call)
     \<lparr>routers = [\<lparr>consumed = False, router = 0\<rparr>, \<lparr>consumed = True, router = 1\<rparr>],
      leaves = [], express = [[], []]\<rparr>) \<noteq>
     \<lparr>routers = [\<lparr>consumed = False, router = 0\<rparr>, \<lparr>consumed = True, router = 1\<rparr>],
      leaves = [], express = [[], []]\<rparr> \<and>
   exec (R_get 0 ''/'' :: (nat, nat) call)
     \<lparr>routers = [\<lparr>consumed = False, router = 0\<rparr>, \<lparr>consumed = True, router = 1\<rparr>],
      leaves = [], express = [[], []]\<rparr> =
     (Inr (LeafRef 0),
      \<lparr>routers = [\<lparr>consumed = False, router = 0\<rparr>, \<lparr>consumed = True, router = 1\<rparr>],
       leaves = [\<lparr>consumed = False, leaf_router = 0, leaf_method = M_get, leaf_path = ''/'',
                  handlers = []\<rparr>],
       express = [[], []]\<rparr>) \<and>
   exec (R_get 0 ''/'' :: (nat, nat) call)
     \<lparr>routers = [\<lparr>consumed = True, router = 0\<rparr>, \<lparr>consumed = True, router = 1\<rparr>],
      leaves = [], express = [[], []]\<rparr> =
     (Inl UseAfterConsume,
      \<lparr>routers = [\<lparr>consumed = True, router = 0\<rparr>, \<lparr>consumed = True, router = 1\<rparr>],
       leaves = [], express = [[], []]\<rparr>)"
  by (simp add: eval_defs)

section \<open>What a call that returns has done\<close>

lemma flags_only_refl: "flags_only h h"
  by (simp add: flags_only_def)

lemma flags_only_trans: "flags_only h h1 \<Longrightarrow> flags_only h1 h2 \<Longrightarrow> flags_only h h2"
  by (simp add: flags_only_def)

lemma flags_only_length: "flags_only h h' \<Longrightarrow> length (routers h') = length (routers h)"
  unfolding flags_only_def by (metis length_map)

lemma flags_only_router:
  "flags_only h h' \<Longrightarrow> a < length (routers h) \<Longrightarrow> router (routers h' ! a) = router (routers h ! a)"
  unfolding flags_only_def by (metis length_map nth_map)

lemma Router_consume_flags_only: "flags_only h (snd (Router_consume a h))"
  by (auto simp: flags_only_def Router_consume_def and_then_def get_Router_def consume_def
      checkConsumed_def map_update list_update_same_conv)

lemma Router_consume_InrD:
  "Router_consume a h = (Inr u, h1) \<Longrightarrow> a < length (routers h) \<and> flags_only h h1"
  using Router_consume_flags_only[of h a]
  by (auto simp: Router_consume_def and_then_def get_Router_def split: if_splits)

lemma get_Router_InrD:
  "get_Router a h = (Inr obj, h1) \<Longrightarrow> h1 = h \<and> a < length (routers h) \<and> obj = routers h ! a"
  by (auto simp: get_Router_def split: if_splits)

lemma Router_toExpress_flags_only: "flags_only h (snd (Router_toExpress a h))"
  using Router_consume_flags_only[of h a]
  by (auto simp: Router_toExpress_def and_then_def get_Router_def succeed_def
      split: prod.splits sum.splits)

lemma snd_and_then_succeed: "snd (and_then m (\<lambda>x. succeed (c x)) h) = snd (m h)"
  by (simp add: and_then_def succeed_def split: prod.splits sum.splits)

lemma toExpress_if_Router_flags_only: "flags_only h (snd (toExpress_if_Router x h))"
  by (cases x)
     (simp_all add: toExpress_if_Router_def snd_and_then_succeed Router_toExpress_flags_only
        succeed_def flags_only_refl)

lemma express_register_InrD:
  "express_register e l h = (Inr u, h1) \<Longrightarrow>
     e < length (express h) \<and> h1 = h\<lparr>express := (express h)[e := express h ! e @ [l]]\<rparr>"
  by (auto simp: express_register_def split: if_splits)

lemma new_Router_Some:
  "new_Router (Some e) h =
     (Inr (length (routers h)), h\<lparr>routers := routers h @ [\<lparr>consumed = False, router = e\<rparr>]\<rparr>)"
  by (simp add: new_Router_def and_then_def succeed_def)

lemma register_then_new:
  assumes "and_then (get_Router this) (\<lambda>obj.
     and_then (express_register (router obj) l) (\<lambda>_. new_Router (Some (router obj)))) h = (Inr n, h')"
  shows "this < length (routers h) \<and> router (routers h ! this) < length (express h) \<and>
     n = length (routers h) \<and>
     h' = h\<lparr>express := (express h)[router (routers h ! this) :=
                express h ! router (routers h ! this) @ [l]],
            routers := routers h @ [\<lparr>consumed = False, router = router (routers h ! this)\<rparr>]\<rparr>"
  using assms
  by (auto simp: new_Router_Some dest!: and_then_InrD get_Router_InrD express_register_InrD)

lemma Router_then_InrD:
  assumes "Router_then this f h = (Inr n, h')"
  shows "this < length (routers h) \<and> n = length (routers h) \<and>
    length (routers h') = Suc n \<and>
    routers h' ! n = \<lparr>consumed = False, router = router (routers h ! this)\<rparr> \<and>
    router (routers h ! this) < length (express h) \<and>
    express h' = (express h)[router (routers h ! this) :=
       express h ! router (routers h ! this) @ [UseLayer [FunArg (ThenHandler f)]]] \<and>
    leaves h' = leaves h"
proof -
  from assms obtain u h1 where 1: "Router_consume this h = (Inr u, h1)"
    and 2: "and_then (get_Router this) (\<lambda>obj.
     and_then (express_register (router obj) (UseLayer [FunArg (ThenHandler f)]))
       (\<lambda>_. new_Router (Some (router obj)))) h1 = (Inr n, h')"
    unfolding Router_then_def express_use_def by (blast dest: and_then_InrD)
  from 1 have a: "this < length (routers h)" and fl: "flags_only h h1"
    by (simp_all add: Router_consume_InrD)
  note r = register_then_new[OF 2]
  from fl have len: "length (routers h1) = length (routers h)" by (rule flags_only_length)
  from fl a have rt: "router (routers h1 ! this) = router (routers h ! this)" by (rule flags_only_router)
  from fl have ex: "express h1 = express h" and lv: "leaves h1 = leaves h" by (simp_all add: flags_only_def)
  show ?thesis using r a len rt ex lv by (simp add: nth_append)
qed

lemma Router_use_InrD:
  assumes "Router_use this first second h = (Inr n, h')"
  shows "this < length (routers h) \<and> n = length (routers h) \<and>
    length (routers h') = Suc n \<and>
    routers h' ! n = \<lparr>consumed = False, router = router (routers h ! this)\<rparr> \<and>
    router (routers h ! this) < length (express h) \<and>
    (\<exists>first' second'. express h' = (express h)[router (routers h ! this) :=
       express h ! router (routers h ! this) @ [UseLayer [first', second']]]) \<and>
    leaves h' = leaves h"
proof -
  let ?rest = "\<lambda>first' second'. and_then (get_Router this) (\<lambda>obj.
     and_then (express_register (router obj) (UseLayer [first', second'])) (\<lambda>_.
       new_Router (Some (router obj))))"
  from assms obtain u ha where a: "Router_consume this h = (Inr u, ha)"
    and "and_then (toExpress_if_Router first) (\<lambda>first'.
           and_then (toExpress_if_Router second) (\<lambda>second'. ?rest first' second')) ha = (Inr n, h')"
    unfolding Router_use_def express_use_def by (blast dest: and_then_InrD)
  then obtain f' hb where b: "toExpress_if_Router first ha = (Inr f', hb)"
    and "and_then (toExpress_if_Router second) (\<lambda>second'. ?rest f' second') hb = (Inr n, h')"
    by (blast dest: and_then_InrD)
  then obtain s' hc where c: "toExpress_if_Router second hb = (Inr s', hc)"
    and 2: "?rest f' s' hc = (Inr n, h')"
    by (blast dest: and_then_InrD)
  from a have v: "this < length (routers h)" and f1: "flags_only h ha"
    by (simp_all add: Router_consume_InrD)
  from b have f2: "flags_only ha hb" using toExpress_if_Router_flags_only[of ha first] by simp
  from c have f3: "flags_only hb hc" using toExpress_if_Router_flags_only[of hb second] by simp
  from f1 f2 f3 have fl: "flags_only h hc" by (blast intro: flags_only_trans)
  note r = register_then_new[OF 2]
  from fl have len: "length (routers hc) = length (routers h)" by (rule flags_only_length)
  from fl v have rt: "router (routers hc ! this) = router (routers h ! this)" by (rule flags_only_router)
  from fl have ex: "express hc = express h" and lv: "leaves hc = leaves h" by (simp_all add: flags_only_def)
  show ?thesis using r v len rt ex lv by (auto simp add: nth_append)
qed

lemma Router_endpoint_InrD:
  assumes "Router_endpoint m this p h = (Inr l, h')"
  shows "this < length (routers h) \<and> l = length (leaves h) \<and>
    h' = h\<lparr>leaves := leaves h @ [\<lparr>consumed = False, leaf_router = router (routers h ! this),
              leaf_method = m, leaf_path = p, handlers = []\<rparr>]\<rparr>"
  using assms
  by (auto simp: Router_endpoint_def Router_checkConsumed_def new_LeafRouter_def get_Router_def
      dest!: and_then_InrD split: if_splits sum.splits)

lemma LeafRouter_consume_InrD:
  "LeafRouter_consume a h = (Inr u, h1) \<Longrightarrow>
     a < length (leaves h) \<and> \<not> consumed (leaves h ! a) \<and>
     h1 = h\<lparr>leaves := (leaves h)[a := (leaves h ! a)\<lparr>consumed := True\<rparr>]\<rparr>"
  by (auto simp: LeafRouter_consume_def and_then_def get_LeafRouter_def consume_def checkConsumed_def
      split: if_splits)

lemma get_LeafRouter_InrD:
  "get_LeafRouter a h = (Inr obj, h1) \<Longrightarrow> h1 = h \<and> a < length (leaves h) \<and> obj = leaves h ! a"
  by (auto simp: get_LeafRouter_def split: if_splits)

lemma LeafRouter_then_InrD:
  assumes "LeafRouter_then this f h = (Inr l, h')"
  shows "this < length (leaves h) \<and> \<not> consumed (leaves h ! this) \<and> l = length (leaves h) \<and>
    h' = h\<lparr>leaves := (leaves h)[this := (leaves h ! this)\<lparr>consumed := True\<rparr>] @
           [\<lparr>consumed = False, leaf_router = leaf_router (leaves h ! this),
             leaf_method = leaf_method (leaves h ! this), leaf_path = leaf_path (leaves h ! this),
             handlers = handlers (leaves h ! this) @ [ThenHandler f]\<rparr>]\<rparr>"
  using assms
  by (auto simp: LeafRouter_then_def new_LeafRouter_def
      dest!: and_then_InrD LeafRouter_consume_InrD get_LeafRouter_InrD)

lemma LeafRouter_return_InrD:
  assumes "LeafRouter_return this f h = (Inr u, h')"
  shows "this < length (leaves h) \<and> \<not> consumed (leaves h ! this) \<and>
    leaf_router (leaves h ! this) < length (express h) \<and>
    h' = h\<lparr>leaves := (leaves h)[this := (leaves h ! this)\<lparr>consumed := True\<rparr>],
           express := (express h)[leaf_router (leaves h ! this) :=
              express h ! leaf_router (leaves h ! this) @
              [RouteLayer (leaf_method (leaves h ! this)) (leaf_path (leaves h ! this))
                 (handlers (leaves h ! this) @ [ReturnHandler f])]]\<rparr>"
  using assms
  by (auto simp: LeafRouter_return_def express_route_def
      dest!: and_then_InrD LeafRouter_consume_InrD get_LeafRouter_InrD express_register_InrD)

lemma LeafRouter_finish_InrD:
  assumes "LeafRouter_finish this f h = (Inr u, h')"
  shows "this < length (leaves h) \<and> \<not> consumed (leaves h ! this) \<and>
    leaf_router (leaves h ! this) < length (express h) \<and>
    h' = h\<lparr>leaves := (leaves h)[this := (leaves h ! this)\<lparr>consumed := True\<rparr>],
           express := (express h)[leaf_router (leaves h ! this) :=
              express h ! leaf_router (leaves h ! this) @
              [RouteLayer (leaf_method (leaves h ! this)) (leaf_path (leaves h ! this))
                 (handlers (leaves h ! this) @ [FinishHandler f])]]\<rparr>"
  using assms
  by (auto simp: LeafRouter_finish_def express_route_def
      dest!: and_then_InrD LeafRouter_consume_InrD get_LeafRouter_InrD express_register_InrD)

lemma Router_toExpress_InrD:
  assumes "Router_toExpress r h = (Inr x, h')"
  shows "x = router (routers h ! r) \<and> express h' = express h"
proof -
  from assms obtain u h1 where 1: "Router_consume r h = (Inr u, h1)"
    and 2: "and_then (get_Router r) (\<lambda>obj. succeed (router obj)) h1 = (Inr x, h')"
    unfolding Router_toExpress_def by (blast dest: and_then_InrD)
  from 1 have a: "r < length (routers h)" and fl: "flags_only h h1"
    by (simp_all add: Router_consume_InrD)
  from 2 have x: "x = router (routers h1 ! r)" and h: "h' = h1"
    by (auto simp: succeed_def dest!: and_then_InrD get_Router_InrD)
  from fl a have "router (routers h1 ! r) = router (routers h ! r)"
    by (rule flags_only_router)
  moreover from fl have "express h1 = express h"
    by (simp add: flags_only_def)
  ultimately show ?thesis using x h by simp
qed

section \<open>One handler list behind all derived builders\<close>

text \<open>What a call on a \<^verbatim>\<open>Router\<close> that returns gives back.\<close>

lemma call_on_router_returns:
  assumes "receiver c = Some (OnRouter this)" and "exec c h = (Inr v, h')"
  shows "case v of
      RouterRef n \<Rightarrow>
        n = length (routers h) \<and> length (routers h') = Suc n \<and>
        routers h' ! n = \<lparr>consumed = False, router = router (routers h ! this)\<rparr>
    | LeafRef l \<Rightarrow>
        l = length (leaves h) \<and> length (leaves h') = Suc l \<and>
        \<not> consumed (leaves h' ! l) \<and> leaf_router (leaves h' ! l) = router (routers h ! this) \<and>
        handlers (leaves h' ! l) = []
    | ExpressRef e \<Rightarrow> e = router (routers h ! this)
    | Void \<Rightarrow> False"
proof (cases c)
  case (R_use a first second)
  with assms obtain n where v: "v = RouterRef n" and r: "Router_use this first second h = (Inr n, h')"
    by (auto dest: as_val_InrD)
  from Router_use_InrD[OF r] have "n = length (routers h)" "length (routers h') = Suc n"
    "routers h' ! n = \<lparr>consumed = False, router = router (routers h ! this)\<rparr>"
    by blast+
  with v show ?thesis by simp
next
  case (R_use_part001 a f)
  with assms obtain n where v: "v = RouterRef n" and "Router_use_part001 this f h = (Inr n, h')"
    by (auto dest: as_val_InrD)
  then obtain u h1 where 1: "Router_consume this h = (Inr u, h1)"
    and 2: "and_then (get_Router this) (\<lambda>obj.
     and_then (express_register (router obj) (UseLayer [FunArg (RawHandler f)]))
       (\<lambda>_. new_Router (Some (router obj)))) h1 = (Inr n, h')"
    unfolding Router_use_part001_def express_use_def by (blast dest: and_then_InrD)
  from 1 have a: "this < length (routers h)" and fl: "flags_only h h1"
    by (simp_all add: Router_consume_InrD)
  note r = register_then_new[OF 2]
  from fl have len: "length (routers h1) = length (routers h)" by (rule flags_only_length)
  from fl a have rt: "router (routers h1 ! this) = router (routers h ! this)" by (rule flags_only_router)
  show ?thesis using r v len rt by (simp add: nth_append)
next
  case (R_then a f)
  with assms obtain n where v: "v = RouterRef n" and r: "Router_then this f h = (Inr n, h')"
    by (auto dest: as_val_InrD)
  from Router_then_InrD[OF r] have "n = length (routers h)" "length (routers h') = Suc n"
    "routers h' ! n = \<lparr>consumed = False, router = router (routers h ! this)\<rparr>"
    by blast+
  with v show ?thesis by simp
next
  case (R_get a p)
  with assms obtain l where v: "v = LeafRef l" and r: "Router_endpoint M_get this p h = (Inr l, h')"
    by (auto simp: Router_get_def dest: as_val_InrD)
  from Router_endpoint_InrD[OF r] v show ?thesis by (simp add: nth_append)
next
  case (R_post a p)
  with assms obtain l where v: "v = LeafRef l" and r: "Router_endpoint M_post this p h = (Inr l, h')"
    by (auto simp: Router_post_def dest: as_val_InrD)
  from Router_endpoint_InrD[OF r] v show ?thesis by (simp add: nth_append)
next
  case (R_put a p)
  with assms obtain l where v: "v = LeafRef l" and r: "Router_endpoint M_put this p h = (Inr l, h')"
    by (auto simp: Router_put_def dest: as_val_InrD)
  from Router_endpoint_InrD[OF r] v show ?thesis by (simp add: nth_append)
next
  case (R_delete a p)
  with assms obtain l where v: "v = LeafRef l" and r: "Router_endpoint M_delete this p h = (Inr l, h')"
    by (auto simp: Router_delete_def dest: as_val_InrD)
  from Router_endpoint_InrD[OF r] v show ?thesis by (simp add: nth_append)
next
  case (R_toExpress a)
  with assms obtain e where v: "v = ExpressRef e" and r: "Router_toExpress this h = (Inr e, h')"
    by (auto dest: as_val_InrD)
  from Router_toExpress_InrD[OF r] v show ?thesis
    by simp
qed (use assms in simp_all)

text \<open>
  Claim C8. A call on a \<^verbatim>\<open>Router\<close> that returns gives, for \<^verbatim>\<open>use\<close> and \<^verbatim>\<open>then\<close>, a new
  \<^verbatim>\<open>Router\<close> (a reference the store did not hold) that is not consumed and wraps the
  receiver's own \<^verbatim>\<open>ExpressRouter\<close>; for \<^verbatim>\<open>get\<close>, \<^verbatim>\<open>post\<close>, \<^verbatim>\<open>put\<close> and \<^verbatim>\<open>delete\<close>, a new
  \<^verbatim>\<open>LeafRouter\<close> that is not consumed, has no handlers yet and holds that same
  \<^verbatim>\<open>ExpressRouter\<close>; and for \<^verbatim>\<open>toExpress\<close>, that \<^verbatim>\<open>ExpressRouter\<close> itself.

  And the registrations made through the derived builder land in that one list. On the
  new \<^verbatim>\<open>Router\<close>, \<^verbatim>\<open>then\<close> and \<^verbatim>\<open>use\<close> append their registration to the receiver's
  \<^verbatim>\<open>ExpressRouter\<close> and to no other, a method factory gives a \<^verbatim>\<open>LeafRouter\<close> on it, and
  \<^verbatim>\<open>toExpress\<close> exports it. On the new \<^verbatim>\<open>LeafRouter\<close>, \<^verbatim>\<open>return\<close> and \<^verbatim>\<open>finish\<close> append their
  route to the receiver's \<^verbatim>\<open>ExpressRouter\<close> and to no other, and \<^verbatim>\<open>then\<close> gives a
  \<^verbatim>\<open>LeafRouter\<close> on it.
\<close>

theorem derived_builders_share_the_express_router:
  assumes "receiver c = Some (OnRouter this)" and "exec c h = (Inr v, h')"
  shows "case v of
      RouterRef n \<Rightarrow>
        n = length (routers h) \<and> length (routers h') = Suc n \<and>
        routers h' ! n = \<lparr>consumed = False, router = router (routers h ! this)\<rparr> \<and>
        (Router_then n f h' = (Inr n2, h2) \<longrightarrow>
           express h2 = (express h')[router (routers h ! this) :=
             express h' ! router (routers h ! this) @ [UseLayer [FunArg (ThenHandler f)]]]) \<and>
        (Router_use n first second h' = (Inr n3, h3) \<longrightarrow>
           (\<exists>first' second'.
              express h3 = (express h')[router (routers h ! this) :=
                express h' ! router (routers h ! this) @ [UseLayer [first', second']]])) \<and>
        (Router_endpoint m n p h' = (Inr l4, h4) \<longrightarrow>
           express h4 = express h' \<and>
           leaf_router (leaves h4 ! l4) = router (routers h ! this)) \<and>
        (Router_toExpress n h' = (Inr x, h5) \<longrightarrow>
           x = router (routers h ! this) \<and> express h5 = express h')
    | LeafRef l \<Rightarrow>
        l = length (leaves h) \<and> length (leaves h') = Suc l \<and>
        \<not> consumed (leaves h' ! l) \<and> leaf_router (leaves h' ! l) = router (routers h ! this) \<and>
        handlers (leaves h' ! l) = [] \<and>
        (LeafRouter_return l g h' = (Inr u, h6) \<longrightarrow>
           express h6 = (express h')[router (routers h ! this) :=
             express h' ! router (routers h ! this) @
             [RouteLayer (leaf_method (leaves h' ! l)) (leaf_path (leaves h' ! l))
                [ReturnHandler g]]]) \<and>
        (LeafRouter_finish l g h' = (Inr u, h7) \<longrightarrow>
           express h7 = (express h')[router (routers h ! this) :=
             express h' ! router (routers h ! this) @
             [RouteLayer (leaf_method (leaves h' ! l)) (leaf_path (leaves h' ! l))
                [FinishHandler g]]]) \<and>
        (LeafRouter_then l g h' = (Inr l8, h8) \<longrightarrow>
           express h8 = express h' \<and>
           leaf_router (leaves h8 ! l8) = router (routers h ! this))
    | ExpressRef e \<Rightarrow> e = router (routers h ! this)
    | Void \<Rightarrow> False"
proof (cases v)
  case (RouterRef n)
  from call_on_router_returns[OF assms]
  have "n = length (routers h) \<and> length (routers h') = Suc n \<and>
        routers h' ! n = \<lparr>consumed = False, router = router (routers h ! this)\<rparr>"
    unfolding RouterRef val.case by blast
  then have a: "n = length (routers h)" "length (routers h') = Suc n"
    and b: "routers h' ! n = \<lparr>consumed = False, router = router (routers h ! this)\<rparr>"
    by blast+
  from b have e: "router (routers h' ! n) = router (routers h ! this)"
    by simp
  have 1: "Router_then n f h' = (Inr n2, h2) \<longrightarrow>
           express h2 = (express h')[router (routers h ! this) :=
             express h' ! router (routers h ! this) @ [UseLayer [FunArg (ThenHandler f)]]]"
  proof
    assume t: "Router_then n f h' = (Inr n2, h2)"
    from Router_then_InrD[OF t]
    have "express h2 = (express h')[router (routers h' ! n) :=
       express h' ! router (routers h' ! n) @ [UseLayer [FunArg (ThenHandler f)]]]"
      by blast
    then show "express h2 = (express h')[router (routers h ! this) :=
             express h' ! router (routers h ! this) @ [UseLayer [FunArg (ThenHandler f)]]]"
      unfolding e .
  qed
  have 2: "Router_use n first second h' = (Inr n3, h3) \<longrightarrow>
           (\<exists>first' second'.
              express h3 = (express h')[router (routers h ! this) :=
                express h' ! router (routers h ! this) @ [UseLayer [first', second']]])"
  proof
    assume t: "Router_use n first second h' = (Inr n3, h3)"
    from Router_use_InrD[OF t]
    have "\<exists>first' second'. express h3 = (express h')[router (routers h' ! n) :=
       express h' ! router (routers h' ! n) @ [UseLayer [first', second']]]"
      by blast
    then show "\<exists>first' second'.
              express h3 = (express h')[router (routers h ! this) :=
                express h' ! router (routers h ! this) @ [UseLayer [first', second']]]"
      unfolding e .
  qed
  have 3: "Router_endpoint m n p h' = (Inr l4, h4) \<longrightarrow>
           express h4 = express h' \<and>
           leaf_router (leaves h4 ! l4) = router (routers h ! this)"
  proof
    assume t: "Router_endpoint m n p h' = (Inr l4, h4)"
    from Router_endpoint_InrD[OF t]
    have "l4 = length (leaves h')" and "h4 = h'\<lparr>leaves := leaves h' @
        [\<lparr>consumed = False, leaf_router = router (routers h' ! n),
          leaf_method = m, leaf_path = p, handlers = []\<rparr>]\<rparr>"
      by blast+
    then have "express h4 = express h'"
      and "leaf_router (leaves h4 ! l4) = router (routers h' ! n)"
      by simp_all
    then show "express h4 = express h' \<and>
           leaf_router (leaves h4 ! l4) = router (routers h ! this)"
      unfolding e by blast
  qed
  have 4: "Router_toExpress n h' = (Inr x, h5) \<longrightarrow>
           x = router (routers h ! this) \<and> express h5 = express h'"
  proof
    assume t: "Router_toExpress n h' = (Inr x, h5)"
    from Router_toExpress_InrD[OF t]
    show "x = router (routers h ! this) \<and> express h5 = express h'"
      unfolding e .
  qed
  from a b 1 2 3 4 show ?thesis
    unfolding RouterRef val.case by blast
next
  case (LeafRef l)
  from call_on_router_returns[OF assms]
  have "l = length (leaves h) \<and> length (leaves h') = Suc l \<and>
        \<not> consumed (leaves h' ! l) \<and> leaf_router (leaves h' ! l) = router (routers h ! this) \<and>
        handlers (leaves h' ! l) = []"
    unfolding LeafRef val.case by blast
  then have a: "l = length (leaves h)" "length (leaves h') = Suc l" "\<not> consumed (leaves h' ! l)"
    and e: "leaf_router (leaves h' ! l) = router (routers h ! this)"
    and hs: "handlers (leaves h' ! l) = []"
    by blast+
  have 1: "LeafRouter_return l g h' = (Inr u, h6) \<longrightarrow>
           express h6 = (express h')[router (routers h ! this) :=
             express h' ! router (routers h ! this) @
             [RouteLayer (leaf_method (leaves h' ! l)) (leaf_path (leaves h' ! l))
                [ReturnHandler g]]]"
  proof
    assume t: "LeafRouter_return l g h' = (Inr u, h6)"
    from LeafRouter_return_InrD[OF t]
    have "h6 = h'\<lparr>leaves := (leaves h')[l := (leaves h' ! l)\<lparr>consumed := True\<rparr>],
           express := (express h')[leaf_router (leaves h' ! l) :=
              express h' ! leaf_router (leaves h' ! l) @
              [RouteLayer (leaf_method (leaves h' ! l)) (leaf_path (leaves h' ! l))
                 (handlers (leaves h' ! l) @ [ReturnHandler g])]]\<rparr>"
      by blast
    then have "express h6 = (express h')[leaf_router (leaves h' ! l) :=
              express h' ! leaf_router (leaves h' ! l) @
              [RouteLayer (leaf_method (leaves h' ! l)) (leaf_path (leaves h' ! l))
                 (handlers (leaves h' ! l) @ [ReturnHandler g])]]"
      by simp
    then show "express h6 = (express h')[router (routers h ! this) :=
             express h' ! router (routers h ! this) @
             [RouteLayer (leaf_method (leaves h' ! l)) (leaf_path (leaves h' ! l))
                [ReturnHandler g]]]"
      unfolding e hs by simp
  qed
  have 2: "LeafRouter_finish l g h' = (Inr u, h7) \<longrightarrow>
           express h7 = (express h')[router (routers h ! this) :=
             express h' ! router (routers h ! this) @
             [RouteLayer (leaf_method (leaves h' ! l)) (leaf_path (leaves h' ! l))
                [FinishHandler g]]]"
  proof
    assume t: "LeafRouter_finish l g h' = (Inr u, h7)"
    from LeafRouter_finish_InrD[OF t]
    have "h7 = h'\<lparr>leaves := (leaves h')[l := (leaves h' ! l)\<lparr>consumed := True\<rparr>],
           express := (express h')[leaf_router (leaves h' ! l) :=
              express h' ! leaf_router (leaves h' ! l) @
              [RouteLayer (leaf_method (leaves h' ! l)) (leaf_path (leaves h' ! l))
                 (handlers (leaves h' ! l) @ [FinishHandler g])]]\<rparr>"
      by blast
    then have "express h7 = (express h')[leaf_router (leaves h' ! l) :=
              express h' ! leaf_router (leaves h' ! l) @
              [RouteLayer (leaf_method (leaves h' ! l)) (leaf_path (leaves h' ! l))
                 (handlers (leaves h' ! l) @ [FinishHandler g])]]"
      by simp
    then show "express h7 = (express h')[router (routers h ! this) :=
             express h' ! router (routers h ! this) @
             [RouteLayer (leaf_method (leaves h' ! l)) (leaf_path (leaves h' ! l))
                [FinishHandler g]]]"
      unfolding e hs by simp
  qed
  have 3: "LeafRouter_then l g h' = (Inr l8, h8) \<longrightarrow>
           express h8 = express h' \<and>
           leaf_router (leaves h8 ! l8) = router (routers h ! this)"
  proof
    assume t: "LeafRouter_then l g h' = (Inr l8, h8)"
    from LeafRouter_then_InrD[OF t]
    have "l8 = length (leaves h')"
      and "h8 = h'\<lparr>leaves := (leaves h')[l := (leaves h' ! l)\<lparr>consumed := True\<rparr>] @
           [\<lparr>consumed = False, leaf_router = leaf_router (leaves h' ! l),
             leaf_method = leaf_method (leaves h' ! l), leaf_path = leaf_path (leaves h' ! l),
             handlers = handlers (leaves h' ! l) @ [ThenHandler g]\<rparr>]\<rparr>"
      by blast+
    then have "express h8 = express h'"
      and "leaf_router (leaves h8 ! l8) = leaf_router (leaves h' ! l)"
      by (simp_all add: nth_append)
    then show "express h8 = express h' \<and>
           leaf_router (leaves h8 ! l8) = router (routers h ! this)"
      unfolding e by blast
  qed
  from a e hs 1 2 3 show ?thesis
    unfolding LeafRef val.case by blast
next
  case (ExpressRef e)
  from call_on_router_returns[OF assms] show ?thesis
    unfolding ExpressRef val.case by blast
next
  case Void
  from call_on_router_returns[OF assms] show ?thesis
    unfolding Void val.case by blast
qed

theorem derived_builders_share_the_express_router_witness:
  "receiver (R_then 0 (UserFn 5) :: (nat, nat) call) = Some (OnRouter 0) \<and>
   exec (R_then 0 (UserFn 5) :: (nat, nat) call)
     \<lparr>routers = [\<lparr>consumed = False, router = 0\<rparr>], leaves = [], express = [[]]\<rparr> =
     (Inr (RouterRef 1),
      \<lparr>routers = [\<lparr>consumed = True, router = 0\<rparr>, \<lparr>consumed = False, router = 0\<rparr>], leaves = [],
       express = [[UseLayer [FunArg (ThenHandler (UserFn 5))]]]\<rparr>) \<and>
   fst (Router_then 1 (UserFn 6)
     (\<lparr>routers = [\<lparr>consumed = True, router = 0\<rparr>, \<lparr>consumed = False, router = 0\<rparr>], leaves = [],
       express = [[UseLayer [FunArg (ThenHandler (UserFn 5))]]]\<rparr> :: (nat, nat) store)) = Inr 2 \<and>
   express (snd (Router_then 1 (UserFn 6)
     (\<lparr>routers = [\<lparr>consumed = True, router = 0\<rparr>, \<lparr>consumed = False, router = 0\<rparr>], leaves = [],
       express = [[UseLayer [FunArg (ThenHandler (UserFn 5))]]]\<rparr> :: (nat, nat) store))) =
     [[UseLayer [FunArg (ThenHandler (UserFn 5))], UseLayer [FunArg (ThenHandler (UserFn 6))]]] \<and>
   fst (Router_use 1 (Str ''/a'') (FunArg (RawHandler 9))
     (\<lparr>routers = [\<lparr>consumed = True, router = 0\<rparr>, \<lparr>consumed = False, router = 0\<rparr>], leaves = [],
       express = [[UseLayer [FunArg (ThenHandler (UserFn 5))]]]\<rparr> :: (nat, nat) store)) = Inr 2 \<and>
   express (snd (Router_use 1 (Str ''/a'') (FunArg (RawHandler 9))
     (\<lparr>routers = [\<lparr>consumed = True, router = 0\<rparr>, \<lparr>consumed = False, router = 0\<rparr>], leaves = [],
       express = [[UseLayer [FunArg (ThenHandler (UserFn 5))]]]\<rparr> :: (nat, nat) store))) =
     [[UseLayer [FunArg (ThenHandler (UserFn 5))],
       UseLayer [Str ''/a'', FunArg (RawHandler 9)]]] \<and>
   fst (Router_endpoint M_put 1 ''/x''
     (\<lparr>routers = [\<lparr>consumed = True, router = 0\<rparr>, \<lparr>consumed = False, router = 0\<rparr>], leaves = [],
       express = [[UseLayer [FunArg (ThenHandler (UserFn 5))]]]\<rparr> :: (nat, nat) store)) = Inr 0 \<and>
   leaf_router (leaves (snd (Router_endpoint M_put 1 ''/x''
     (\<lparr>routers = [\<lparr>consumed = True, router = 0\<rparr>, \<lparr>consumed = False, router = 0\<rparr>], leaves = [],
       express = [[UseLayer [FunArg (ThenHandler (UserFn 5))]]]\<rparr> :: (nat, nat) store))) ! 0) = 0 \<and>
   fst (Router_toExpress 1
     (\<lparr>routers = [\<lparr>consumed = True, router = 0\<rparr>, \<lparr>consumed = False, router = 0\<rparr>], leaves = [],
       express = [[UseLayer [FunArg (ThenHandler (UserFn 5))]]]\<rparr> :: (nat, nat) store)) = Inr 0 \<and>
   receiver (R_get 0 ''/x'' :: (nat, nat) call) = Some (OnRouter 0) \<and>
   exec (R_get 0 ''/x'' :: (nat, nat) call)
     \<lparr>routers = [\<lparr>consumed = False, router = 0\<rparr>], leaves = [], express = [[]]\<rparr> =
     (Inr (LeafRef 0),
      \<lparr>routers = [\<lparr>consumed = False, router = 0\<rparr>],
       leaves = [\<lparr>consumed = False, leaf_router = 0, leaf_method = M_get, leaf_path = ''/x'',
                  handlers = []\<rparr>],
       express = [[]]\<rparr>) \<and>
   fst (LeafRouter_return 0 (UserFn 7)
     (\<lparr>routers = [\<lparr>consumed = False, router = 0\<rparr>],
       leaves = [\<lparr>consumed = False, leaf_router = 0, leaf_method = M_get, leaf_path = ''/x'',
                  handlers = []\<rparr>],
       express = [[]]\<rparr> :: (nat, nat) store)) = Inr () \<and>
   express (snd (LeafRouter_return 0 (UserFn 7)
     (\<lparr>routers = [\<lparr>consumed = False, router = 0\<rparr>],
       leaves = [\<lparr>consumed = False, leaf_router = 0, leaf_method = M_get, leaf_path = ''/x'',
                  handlers = []\<rparr>],
       express = [[]]\<rparr> :: (nat, nat) store))) =
     [[RouteLayer M_get ''/x'' [ReturnHandler (UserFn 7)]]] \<and>
   fst (LeafRouter_finish 0 (UserFn 7)
     (\<lparr>routers = [\<lparr>consumed = False, router = 0\<rparr>],
       leaves = [\<lparr>consumed = False, leaf_router = 0, leaf_method = M_get, leaf_path = ''/x'',
                  handlers = []\<rparr>],
       express = [[]]\<rparr> :: (nat, nat) store)) = Inr () \<and>
   express (snd (LeafRouter_finish 0 (UserFn 7)
     (\<lparr>routers = [\<lparr>consumed = False, router = 0\<rparr>],
       leaves = [\<lparr>consumed = False, leaf_router = 0, leaf_method = M_get, leaf_path = ''/x'',
                  handlers = []\<rparr>],
       express = [[]]\<rparr> :: (nat, nat) store))) =
     [[RouteLayer M_get ''/x'' [FinishHandler (UserFn 7)]]] \<and>
   fst (LeafRouter_then 0 (UserFn 7)
     (\<lparr>routers = [\<lparr>consumed = False, router = 0\<rparr>],
       leaves = [\<lparr>consumed = False, leaf_router = 0, leaf_method = M_get, leaf_path = ''/x'',
                  handlers = []\<rparr>],
       express = [[]]\<rparr> :: (nat, nat) store)) = Inr 1 \<and>
   leaf_router (leaves (snd (LeafRouter_then 0 (UserFn 7)
     (\<lparr>routers = [\<lparr>consumed = False, router = 0\<rparr>],
       leaves = [\<lparr>consumed = False, leaf_router = 0, leaf_method = M_get, leaf_path = ''/x'',
                  handlers = []\<rparr>],
       express = [[]]\<rparr> :: (nat, nat) store))) ! 1) = 0"
proof -
  let ?h0 = "\<lparr>routers = [\<lparr>consumed = False, router = 0\<rparr>], leaves = [], express = [[]]\<rparr>
    :: (nat, nat) store"
  let ?h1 = "\<lparr>routers = [\<lparr>consumed = True, router = 0\<rparr>, \<lparr>consumed = False, router = 0\<rparr>],
       leaves = [], express = [[UseLayer [FunArg (ThenHandler (UserFn 5))]]]\<rparr> :: (nat, nat) store"
  let ?hl = "\<lparr>routers = [\<lparr>consumed = False, router = 0\<rparr>],
       leaves = [\<lparr>consumed = False, leaf_router = 0, leaf_method = M_get, leaf_path = ''/x'',
                  handlers = []\<rparr>],
       express = [[]]\<rparr> :: (nat, nat) store"
  have 1: "exec (R_then 0 (UserFn 5)) ?h0 = (Inr (RouterRef 1), ?h1)"
    by (simp add: eval_defs)
  have 2: "exec (R_get 0 ''/x'') ?h0 = (Inr (LeafRef 0), ?hl)"
    by (simp add: eval_defs)
  have t: "Router_then 1 (UserFn 6) ?h1 = (Inr 2, snd (Router_then 1 (UserFn 6) ?h1))"
    by (simp add: eval_defs)
  have u: "Router_use 1 (Str ''/a'') (FunArg (RawHandler 9)) ?h1 =
      (Inr 2, snd (Router_use 1 (Str ''/a'') (FunArg (RawHandler 9)) ?h1))"
    by (simp add: eval_defs)
  have g: "Router_endpoint M_put 1 ''/x'' ?h1 = (Inr 0, snd (Router_endpoint M_put 1 ''/x'' ?h1))"
    by (simp add: eval_defs)
  have x: "Router_toExpress 1 ?h1 = (Inr 0, snd (Router_toExpress 1 ?h1))"
    by (simp add: eval_defs)
  have r: "LeafRouter_return 0 (UserFn 7) ?hl = (Inr (), snd (LeafRouter_return 0 (UserFn 7) ?hl))"
    by (simp add: eval_defs)
  have f: "LeafRouter_finish 0 (UserFn 7) ?hl = (Inr (), snd (LeafRouter_finish 0 (UserFn 7) ?hl))"
    by (simp add: eval_defs)
  have l: "LeafRouter_then 0 (UserFn 7) ?hl = (Inr 1, snd (LeafRouter_then 0 (UserFn 7) ?hl))"
    by (simp add: eval_defs)
  have a: "receiver (R_then 0 (UserFn 5) :: (nat, nat) call) = Some (OnRouter 0)"
    and b: "receiver (R_get 0 ''/x'' :: (nat, nat) call) = Some (OnRouter 0)"
    by simp_all
  note A = derived_builders_share_the_express_router[OF a 1,
      where f = "UserFn 6" and ?n2.0 = 2 and ?h2.0 = "snd (Router_then 1 (UserFn 6) ?h1)"
        and first = "Str ''/a''" and second = "FunArg (RawHandler 9)" and ?n3.0 = 2
        and ?h3.0 = "snd (Router_use 1 (Str ''/a'') (FunArg (RawHandler 9)) ?h1)"
        and m = M_put and p = "''/x''" and ?l4.0 = 0
        and ?h4.0 = "snd (Router_endpoint M_put 1 ''/x'' ?h1)"
        and x = 0 and ?h5.0 = "snd (Router_toExpress 1 ?h1)"]
  note B = derived_builders_share_the_express_router[OF b 2,
      where g = "UserFn 7" and u = "()" and ?h6.0 = "snd (LeafRouter_return 0 (UserFn 7) ?hl)"
        and ?h7.0 = "snd (LeafRouter_finish 0 (UserFn 7) ?hl)" and ?l8.0 = 1
        and ?h8.0 = "snd (LeafRouter_then 0 (UserFn 7) ?hl)"]
  from A t u g x
  have A': "express (snd (Router_then 1 (UserFn 6) ?h1)) =
      [[UseLayer [FunArg (ThenHandler (UserFn 5))], UseLayer [FunArg (ThenHandler (UserFn 6))]]]"
    "leaf_router (leaves (snd (Router_endpoint M_put 1 ''/x'' ?h1)) ! 0) = 0"
    by simp_all
  from B r f l
  have B': "express (snd (LeafRouter_return 0 (UserFn 7) ?hl)) =
      [[RouteLayer M_get ''/x'' [ReturnHandler (UserFn 7)]]]"
    "express (snd (LeafRouter_finish 0 (UserFn 7) ?hl)) =
      [[RouteLayer M_get ''/x'' [FinishHandler (UserFn 7)]]]"
    "leaf_router (leaves (snd (LeafRouter_then 0 (UserFn 7) ?hl)) ! 1) = 0"
    by simp_all
  have U: "express (snd (Router_use 1 (Str ''/a'') (FunArg (RawHandler 9)) ?h1)) =
     [[UseLayer [FunArg (ThenHandler (UserFn 5))],
       UseLayer [Str ''/a'', FunArg (RawHandler 9)]]]"
    by (simp add: eval_defs)
  from t u g x r f l have F: "fst (Router_then 1 (UserFn 6) ?h1) = Inr 2"
    "fst (Router_use 1 (Str ''/a'') (FunArg (RawHandler 9)) ?h1) = Inr 2"
    "fst (Router_endpoint M_put 1 ''/x'' ?h1) = Inr 0"
    "fst (Router_toExpress 1 ?h1) = Inr 0"
    "fst (LeafRouter_return 0 (UserFn 7) ?hl) = Inr ()"
    "fst (LeafRouter_finish 0 (UserFn 7) ?hl) = Inr ()"
    "fst (LeafRouter_then 0 (UserFn 7) ?hl) = Inr 1"
    by (metis fst_conv)+
  from a b 1 2 A' B' U F show ?thesis
    by simp
qed

text \<open>
  Claim C9. \<^verbatim>\<open>then\<close> of a \<^verbatim>\<open>LeafRouter\<close> writes nothing into any Express router, whether
  it returns or throws. When it returns, its result is a new \<^verbatim>\<open>LeafRouter\<close> with the same
  router, method and path, whose handlers are the receiver's followed by the closure of
  the step; the receiver's own handlers are as before. The registration is written by a
  later \<^verbatim>\<open>return\<close> or \<^verbatim>\<open>finish\<close> on the new \<^verbatim>\<open>LeafRouter\<close>: one route, appended to the
  Express router, with those handlers followed by the terminal one.
\<close>

theorem leaf_then_registers_nothing:
  "express (snd (LeafRouter_then this f h)) = express h \<and>
   (LeafRouter_then this f h = (Inr l, h1) \<longrightarrow>
      l = length (leaves h) \<and> length (leaves h1) = Suc l \<and>
      handlers (leaves h1 ! this) = handlers (leaves h ! this) \<and>
      leaves h1 ! l =
        \<lparr>consumed = False, leaf_router = leaf_router (leaves h ! this),
         leaf_method = leaf_method (leaves h ! this), leaf_path = leaf_path (leaves h ! this),
         handlers = handlers (leaves h ! this) @ [ThenHandler f]\<rparr> \<and>
      (LeafRouter_return l g h1 = (Inr u, h2) \<longrightarrow>
         express h2 = (express h)[leaf_router (leaves h ! this) :=
           express h ! leaf_router (leaves h ! this) @
           [RouteLayer (leaf_method (leaves h ! this)) (leaf_path (leaves h ! this))
              (handlers (leaves h ! this) @ [ThenHandler f, ReturnHandler g])]]) \<and>
      (LeafRouter_finish l g h1 = (Inr u, h3) \<longrightarrow>
         express h3 = (express h)[leaf_router (leaves h ! this) :=
           express h ! leaf_router (leaves h ! this) @
           [RouteLayer (leaf_method (leaves h ! this)) (leaf_path (leaves h ! this))
              (handlers (leaves h ! this) @ [ThenHandler f, FinishHandler g])]]))"
proof (intro conjI impI)
  show "express (snd (LeafRouter_then this f h)) = express h"
    using quiet_LeafRouter_then[of this f] by (simp add: quiet_def)
next
  assume a: "LeafRouter_then this f h = (Inr l, h1)"
  note t = LeafRouter_then_InrD[OF a]
  from t show "l = length (leaves h)" by simp
  from t show "length (leaves h1) = Suc l" by simp
  from t show "handlers (leaves h1 ! this) = handlers (leaves h ! this)"
    by (simp add: nth_append)
  from t show "leaves h1 ! l =
        \<lparr>consumed = False, leaf_router = leaf_router (leaves h ! this),
         leaf_method = leaf_method (leaves h ! this), leaf_path = leaf_path (leaves h ! this),
         handlers = handlers (leaves h ! this) @ [ThenHandler f]\<rparr>"
    by (simp add: nth_append)
  {
    assume "LeafRouter_return l g h1 = (Inr u, h2)"
    from LeafRouter_return_InrD[OF this] t
    show "express h2 = (express h)[leaf_router (leaves h ! this) :=
           express h ! leaf_router (leaves h ! this) @
           [RouteLayer (leaf_method (leaves h ! this)) (leaf_path (leaves h ! this))
              (handlers (leaves h ! this) @ [ThenHandler f, ReturnHandler g])]]"
      by (simp add: nth_append)
  }
  {
    assume "LeafRouter_finish l g h1 = (Inr u, h3)"
    from LeafRouter_finish_InrD[OF this] t
    show "express h3 = (express h)[leaf_router (leaves h ! this) :=
           express h ! leaf_router (leaves h ! this) @
           [RouteLayer (leaf_method (leaves h ! this)) (leaf_path (leaves h ! this))
              (handlers (leaves h ! this) @ [ThenHandler f, FinishHandler g])]]"
      by (simp add: nth_append)
  }
qed

theorem leaf_then_registers_nothing_witness:
  "LeafRouter_then 0 (MarshalParams (1::nat))
     (\<lparr>routers = [\<lparr>consumed = False, router = 0\<rparr>],
       leaves = [\<lparr>consumed = False, leaf_router = 0, leaf_method = M_get, leaf_path = ''/:slug'',
                  handlers = []\<rparr>],
       express = [[]]\<rparr> :: (nat, nat) store) =
     (Inr 1,
      \<lparr>routers = [\<lparr>consumed = False, router = 0\<rparr>],
       leaves = [\<lparr>consumed = True, leaf_router = 0, leaf_method = M_get, leaf_path = ''/:slug'',
                  handlers = []\<rparr>,
                 \<lparr>consumed = False, leaf_router = 0, leaf_method = M_get, leaf_path = ''/:slug'',
                  handlers = [ThenHandler (MarshalParams 1)]\<rparr>],
       express = [[]]\<rparr>) \<and>
   express (snd (LeafRouter_return 1 (UserFn (2::nat))
      \<lparr>routers = [\<lparr>consumed = False, router = 0\<rparr>],
       leaves = [\<lparr>consumed = True, leaf_router = 0, leaf_method = M_get, leaf_path = ''/:slug'',
                  handlers = []\<rparr>,
                 \<lparr>consumed = False, leaf_router = 0, leaf_method = M_get, leaf_path = ''/:slug'',
                  handlers = [ThenHandler (MarshalParams (1::nat))]\<rparr>],
       express = [[]]\<rparr>)) =
     [[RouteLayer M_get ''/:slug'' [ThenHandler (MarshalParams 1), ReturnHandler (UserFn 2)]]] \<and>
   express (snd (LeafRouter_finish 1 (UserFn (2::nat))
      \<lparr>routers = [\<lparr>consumed = False, router = 0\<rparr>],
       leaves = [\<lparr>consumed = True, leaf_router = 0, leaf_method = M_get, leaf_path = ''/:slug'',
                  handlers = []\<rparr>,
                 \<lparr>consumed = False, leaf_router = 0, leaf_method = M_get, leaf_path = ''/:slug'',
                  handlers = [ThenHandler (MarshalParams (1::nat))]\<rparr>],
       express = [[]]\<rparr>)) =
     [[RouteLayer M_get ''/:slug'' [ThenHandler (MarshalParams 1), FinishHandler (UserFn 2)]]]"
proof -
  let ?h = "\<lparr>routers = [\<lparr>consumed = False, router = 0\<rparr>],
      leaves = [\<lparr>consumed = False, leaf_router = 0, leaf_method = M_get, leaf_path = ''/:slug'',
                 handlers = []\<rparr>],
      express = [[]]\<rparr> :: (nat, nat) store"
  let ?h1 = "\<lparr>routers = [\<lparr>consumed = False, router = 0\<rparr>],
       leaves = [\<lparr>consumed = True, leaf_router = 0, leaf_method = M_get, leaf_path = ''/:slug'',
                  handlers = []\<rparr>,
                 \<lparr>consumed = False, leaf_router = 0, leaf_method = M_get, leaf_path = ''/:slug'',
                  handlers = [ThenHandler (MarshalParams 1)]\<rparr>],
       express = [[]]\<rparr> :: (nat, nat) store"
  have 1: "LeafRouter_then 0 (MarshalParams 1) ?h = (Inr 1, ?h1)"
    by (simp add: eval_defs)
  let ?h2 = "\<lparr>routers = [\<lparr>consumed = False, router = 0\<rparr>],
       leaves = [\<lparr>consumed = True, leaf_router = 0, leaf_method = M_get, leaf_path = ''/:slug'',
                  handlers = []\<rparr>,
                 \<lparr>consumed = True, leaf_router = 0, leaf_method = M_get, leaf_path = ''/:slug'',
                  handlers = [ThenHandler (MarshalParams 1)]\<rparr>],
       express = [[RouteLayer M_get ''/:slug''
                     [ThenHandler (MarshalParams 1), ReturnHandler (UserFn 2)]]]\<rparr> :: (nat, nat) store"
  let ?h3 = "\<lparr>routers = [\<lparr>consumed = False, router = 0\<rparr>],
       leaves = [\<lparr>consumed = True, leaf_router = 0, leaf_method = M_get, leaf_path = ''/:slug'',
                  handlers = []\<rparr>,
                 \<lparr>consumed = True, leaf_router = 0, leaf_method = M_get, leaf_path = ''/:slug'',
                  handlers = [ThenHandler (MarshalParams 1)]\<rparr>],
       express = [[RouteLayer M_get ''/:slug''
                     [ThenHandler (MarshalParams 1), FinishHandler (UserFn 2)]]]\<rparr> :: (nat, nat) store"
  have 2: "LeafRouter_return 1 (UserFn 2) ?h1 = (Inr (), ?h2)"
    by (simp add: eval_defs)
  have 3: "LeafRouter_finish 1 (UserFn 2) ?h1 = (Inr (), ?h3)"
    by (simp add: eval_defs)
  have "express ?h2 = (express ?h)[0 := express ?h ! 0 @
           [RouteLayer M_get ''/:slug'' ([] @ [ThenHandler (MarshalParams 1), ReturnHandler (UserFn 2)])]] \<and>
        express ?h3 = (express ?h)[0 := express ?h ! 0 @
           [RouteLayer M_get ''/:slug'' ([] @ [ThenHandler (MarshalParams 1), FinishHandler (UserFn 2)])]]"
    using leaf_then_registers_nothing[of 0 "MarshalParams 1" ?h 1 ?h1 "UserFn 2" "()" ?h2 ?h3] 1 2 3
    by simp
  with 1 2 3 show ?thesis
    by simp
qed

section \<open>The closures at request time\<close>

text \<open>
  Claim C3 says that a failure of a step registered by \<^verbatim>\<open>then\<close> is caught by the
  registered closure and forwarded with \<^verbatim>\<open>next(e)\<close>. The closure of \<^verbatim>\<open>src/index.ts\<close> and of
  part 001 has no \<^verbatim>\<open>try\<close>: when the step throws or its promise is rejected with \<open>e\<close>, the
  closure never calls \<^verbatim>\<open>next\<close> and its own promise is rejected with \<open>e\<close>. The closure of
  part 000 does what the claim says: it calls \<^verbatim>\<open>next(e)\<close> once and its promise is fulfilled.
\<close>

theorem then_closure_without_catch:
  "(v \<noteq> Part_000 \<and> call1 v env f req = (req', c) \<and> await c = Raised e \<longrightarrow>
      run_handler v env raw (ThenHandler f) req res =
        \<lparr>req_after = req', res_after = res, invoked = [f], next_calls = [],
         settled = Rejects e\<rparr>) \<and>
   (call1 Part_000 env f req = (req', c) \<and> await c = Raised e \<longrightarrow>
      run_handler Part_000 env raw (ThenHandler f) req res =
        \<lparr>req_after = req', res_after = res, invoked = [f], next_calls = [Some e],
         settled = Resolves ()\<rparr>)"
  by (cases v) (simp_all add: then_handler_index_def then_handler_part000_def)

theorem then_closure_without_catch_witness:
  "Index_ts \<noteq> Part_000 \<and>
   call1 Index_ts example_env (UserFn 0) example_request = (example_request, Rejects ''denied'') \<and>
   call1 Part_000 example_env (UserFn 0) example_request = (example_request, Rejects ''denied'') \<and>
   await (Rejects ''denied'' :: (nat result, string) completion) = Raised ''denied'' \<and>
   run_handler Index_ts example_env example_raw (ThenHandler (UserFn 0)) example_request no_response =
     \<lparr>req_after = example_request, res_after = no_response, invoked = [UserFn 0],
      next_calls = [], settled = Rejects ''denied''\<rparr> \<and>
   run_handler Part_000 example_env example_raw (ThenHandler (UserFn 0)) example_request no_response =
     \<lparr>req_after = example_request, res_after = no_response, invoked = [UserFn 0],
      next_calls = [Some ''denied''], settled = Resolves ()\<rparr>"
proof -
  have 1: "call1 Index_ts example_env (UserFn 0) example_request = (example_request, Rejects ''denied'')"
    by (simp add: example_env_def)
  have 2: "call1 Part_000 example_env (UserFn 0) example_request = (example_request, Rejects ''denied'')"
    by (simp add: example_env_def)
  show ?thesis
    using then_closure_without_catch[of Index_ts example_env "UserFn 0" example_request
        example_request "Rejects ''denied''" "''denied''" example_raw no_response] 1 2
    by simp
qed

text \<open>
  Claim C4. In every variant the closure of \<^verbatim>\<open>return\<close> sends the value of the function as
  the response when the function completes. When the function fails with \<open>e\<close>, no
  variant sends a response; the closure of part 000 calls \<^verbatim>\<open>next(e)\<close> once, as the claim
  says, but the closure of \<^verbatim>\<open>src/index.ts\<close> and of part 001 does not take \<^verbatim>\<open>next\<close> at all:
  it forwards no error, and its promise is rejected with \<open>e\<close>.
\<close>

theorem return_closure_without_catch:
  "(call1 v env f req = (req', c) \<and> await c = Value reply \<longrightarrow>
      run_handler v env raw (ReturnHandler f) req res =
        \<lparr>req_after = req', res_after = res\<lparr>sent := sent res @ [reply]\<rparr>, invoked = [f],
         next_calls = [], settled = Resolves ()\<rparr>) \<and>
   (v \<noteq> Part_000 \<and> call1 v env f req = (req', c) \<and> await c = Raised e \<longrightarrow>
      run_handler v env raw (ReturnHandler f) req res =
        \<lparr>req_after = req', res_after = res, invoked = [f], next_calls = [],
         settled = Rejects e\<rparr>) \<and>
   (call1 Part_000 env f req = (req', c) \<and> await c = Raised e \<longrightarrow>
      run_handler Part_000 env raw (ReturnHandler f) req res =
        \<lparr>req_after = req', res_after = res, invoked = [f], next_calls = [Some e],
         settled = Resolves ()\<rparr>)"
  by (cases v) (simp_all add: return_handler_index_def return_handler_part000_def)

theorem return_closure_without_catch_witness:
  "call1 Index_ts example_env (UserFn 1) example_request =
     (example_request, Resolves (ValResult 42)) \<and>
   await (Resolves (ValResult 42) :: (nat result, string) completion) = Value (ValResult 42) \<and>
   run_handler Index_ts example_env example_raw (ReturnHandler (UserFn 1)) example_request no_response =
     \<lparr>req_after = example_request, res_after = \<lparr>sent = [ValResult 42]\<rparr>, invoked = [UserFn 1],
      next_calls = [], settled = Resolves ()\<rparr> \<and>
   Index_ts \<noteq> Part_000 \<and>
   call1 Index_ts example_env (UserFn 2) example_request = (example_request, Throws ''boom'') \<and>
   call1 Part_000 example_env (UserFn 2) example_request = (example_request, Throws ''boom'') \<and>
   await (Throws ''boom'' :: (nat result, string) completion) = Raised ''boom'' \<and>
   run_handler Index_ts example_env example_raw (ReturnHandler (UserFn 2)) example_request no_response =
     \<lparr>req_after = example_request, res_after = no_response, invoked = [UserFn 2],
      next_calls = [], settled = Rejects ''boom''\<rparr> \<and>
   run_handler Part_000 example_env example_raw (ReturnHandler (UserFn 2)) example_request no_response =
     \<lparr>req_after = example_request, res_after = no_response, invoked = [UserFn 2],
      next_calls = [Some ''boom''], settled = Resolves ()\<rparr>"
proof -
  have 1: "call1 Index_ts example_env (UserFn 1) example_request =
     (example_request, Resolves (ValResult 42))"
    by (simp add: example_env_def)
  have 2: "call1 Index_ts example_env (UserFn 2) example_request = (example_request, Throws ''boom'')"
    by (simp add: example_env_def)
  have 3: "call1 Part_000 example_env (UserFn 2) example_request = (example_request, Throws ''boom'')"
    by (simp add: example_env_def)
  show ?thesis
    using return_closure_without_catch[of Index_ts example_env "UserFn 1" example_request
        example_request "Resolves (ValResult 42)" "ValResult 42" example_raw no_response]
      return_closure_without_catch[of Index_ts example_env "UserFn 2" example_request
        example_request "Throws ''boom''" _ example_raw no_response "''boom''"] 1 2 3
    by (simp add: no_response_def)
qed

section \<open>The marshalling steps\<close>

text \<open>Which facet each step reads, in each variant.\<close>

lemma marshal_steps_part000_read_their_facet:
  "call1 Part_000 env (MarshalParams d) req = marshal_step env params d req \<and>
   call1 Part_000 env (MarshalQuery d) req = marshal_step env query d req \<and>
   call1 Part_000 env (MarshalBody d) req = marshal_step env body d req"
  by (simp add: marshalParams_part000_def marshalQuery_part000_def marshalBody_part000_def)

lemma marshal_steps_index_read_the_body:
  "v \<noteq> Part_000 \<Longrightarrow>
   call1 v env (MarshalParams d) req = marshal_step env body d req \<and>
   call1 v env (MarshalQuery d) req = marshal_step env body d req \<and>
   call1 v env (MarshalBody d) req = marshal_step env body d req"
  by (cases v) (simp_all add: marshalParams_index_def marshalQuery_index_def marshalBody_index_def)

text \<open>
  Claim C5 says that \<^verbatim>\<open>marshalParams\<close> reads the path parameters and \<^verbatim>\<open>marshalQuery\<close> the
  query parameters. In \<^verbatim>\<open>src/index.ts\<close> and part 001 both read the body. On a request
  whose parameters are 1, whose query is 2 and whose body is 3, with a description that
  only 3 matches, their steps return although the parameters and the query do not match,
  where the steps of part 000 throw; and with a description that only 1 matches, which
  the parameters do match, the \<^verbatim>\<open>marshalParams\<close> step of \<^verbatim>\<open>src/index.ts\<close> throws.
\<close>

theorem marshalParams_of_index_reads_the_body:
  "params example_request = 1 \<and> query example_request = 2 \<and> body example_request = 3 \<and>
   marshal example_env 1 3 = Some ''does not match'' \<and>
   marshal example_env 2 3 = Some ''does not match'' \<and>
   marshal example_env 3 3 = None \<and>
   call1 Index_ts example_env (MarshalParams 3) example_request =
     (example_request, Returns (ReqResult example_request)) \<and>
   call1 Index_ts example_env (MarshalQuery 3) example_request =
     (example_request, Returns (ReqResult example_request)) \<and>
   call1 Part_001 example_env (MarshalParams 3) example_request =
     (example_request, Returns (ReqResult example_request)) \<and>
   call1 Part_001 example_env (MarshalQuery 3) example_request =
     (example_request, Returns (ReqResult example_request)) \<and>
   call1 Part_000 example_env (MarshalParams 3) example_request =
     (example_request, Throws ''does not match'') \<and>
   call1 Part_000 example_env (MarshalQuery 3) example_request =
     (example_request, Throws ''does not match'') \<and>
   call1 Index_ts example_env (MarshalParams 1) example_request =
     (example_request, Throws ''does not match'') \<and>
   call1 Part_000 example_env (MarshalParams 1) example_request =
     (example_request, Returns (ReqResult example_request))"
  by (simp add: marshalParams_index_def marshalQuery_index_def marshalParams_part000_def
      marshalQuery_part000_def marshal_step_def example_env_def example_request_def)

text \<open>
  Claim C6. In every variant, the step of \<^verbatim>\<open>marshalBody(d)\<close> on a request \<open>r\<close> whose body
  matches \<open>d\<close> returns \<open>r\<close> itself, and leaves it as it was; on a request whose body does
  not match, it throws the error of \<^verbatim>\<open>marshal\<close>, and leaves the request as it was.
\<close>

theorem marshalBody_returns_the_request_or_raises:
  "(marshal env (body r) d = None \<longrightarrow>
      call1 v env (MarshalBody d) r = (r, Returns (ReqResult r))) \<and>
   (marshal env (body r) d = Some e \<longrightarrow>
      call1 v env (MarshalBody d) r = (r, Throws e))"
  by (cases v) (simp_all add: marshalBody_index_def marshalBody_part000_def marshal_step_def)

theorem marshalBody_returns_the_request_or_raises_witness:
  "marshal example_env (body example_request) 3 = None \<and>
   call1 Index_ts example_env (MarshalBody 3) example_request =
     (example_request, Returns (ReqResult example_request)) \<and>
   marshal example_env (body example_request) 4 = Some ''does not match'' \<and>
   call1 Index_ts example_env (MarshalBody 4) example_request =
     (example_request, Throws ''does not match'')"
proof -
  have 1: "marshal example_env (body example_request) 3 = None"
    by (simp add: example_env_def example_request_def)
  have 2: "marshal example_env (body example_request) 4 = Some ''does not match''"
    by (simp add: example_env_def example_request_def)
  show ?thesis
    using marshalBody_returns_the_request_or_raises[of example_env example_request 3 Index_ts] 1
      marshalBody_returns_the_request_or_raises[of example_env example_request 4 Index_ts
        "''does not match''"] 2
    by simp
qed

section \<open>The compiled chain and the order of its steps\<close>

lemma new_Router_None:
  "new_Router None h =
     (Inr (length (routers h)),
      h\<lparr>express := express h @ [[]],
        routers := routers h @ [\<lparr>consumed = False, router = length (express h)\<rparr>]\<rparr>)"
  by (simp add: new_Router_def and_then_def ExpressRouter_def)

lemma Router_thens_InrD:
  "Router_thens r ss h = (Inr r', h') \<Longrightarrow>
     router (routers h' ! r') = router (routers h ! r) \<and>
     express h' = (express h)[router (routers h ! r) :=
        express h ! router (routers h ! r) @ map (\<lambda>s. UseLayer [FunArg (ThenHandler s)]) ss] \<and>
     leaves h' = leaves h"
proof (induction ss arbitrary: r h)
  case Nil
  then show ?case by (simp add: succeed_def)
next
  case (Cons s ss)
  from Cons.prems obtain r1 h1 where 1: "Router_then r s h = (Inr r1, h1)"
    and 2: "Router_thens r1 ss h1 = (Inr r', h')"
    by (auto dest: and_then_InrD)
  let ?e = "router (routers h ! r)"
  from Router_then_InrD[OF 1] have a: "routers h1 ! r1 = \<lparr>consumed = False, router = ?e\<rparr>"
    and b: "?e < length (express h)"
    and c: "express h1 = (express h)[?e := express h ! ?e @ [UseLayer [FunArg (ThenHandler s)]]]"
    and d: "leaves h1 = leaves h"
    by blast+
  from a have e1: "router (routers h1 ! r1) = ?e" by simp
  from Cons.IH[OF 2] e1 have "router (routers h' ! r') = ?e"
    and "express h' = (express h1)[?e := express h1 ! ?e @ map (\<lambda>s. UseLayer [FunArg (ThenHandler s)]) ss]"
    and "leaves h' = leaves h1"
    by simp_all
  with b c d show ?case by simp
qed

lemma LeafRouter_thens_InrD:
  "LeafRouter_thens l ts h = (Inr l', h') \<Longrightarrow>
     leaf_router (leaves h' ! l') = leaf_router (leaves h ! l) \<and>
     leaf_method (leaves h' ! l') = leaf_method (leaves h ! l) \<and>
     leaf_path (leaves h' ! l') = leaf_path (leaves h ! l) \<and>
     handlers (leaves h' ! l') = handlers (leaves h ! l) @ map ThenHandler ts \<and>
     express h' = express h \<and> routers h' = routers h"
proof (induction ts arbitrary: l h)
  case Nil
  then show ?case by (simp add: succeed_def)
next
  case (Cons t ts)
  from Cons.prems obtain l1 h1 where 1: "LeafRouter_then l t h = (Inr l1, h1)"
    and 2: "LeafRouter_thens l1 ts h1 = (Inr l', h')"
    by (auto dest: and_then_InrD)
  from LeafRouter_then_InrD[OF 1]
  have a: "leaves h1 ! l1 = \<lparr>consumed = False, leaf_router = leaf_router (leaves h ! l),
             leaf_method = leaf_method (leaves h ! l), leaf_path = leaf_path (leaves h ! l),
             handlers = handlers (leaves h ! l) @ [ThenHandler t]\<rparr>"
    and b: "express h1 = express h" and c: "routers h1 = routers h"
    by (simp_all add: nth_append)
  from Cons.IH[OF 2] have "leaf_router (leaves h' ! l') = leaf_router (leaves h1 ! l1)"
     "leaf_method (leaves h' ! l') = leaf_method (leaves h1 ! l1)"
     "leaf_path (leaves h' ! l') = leaf_path (leaves h1 ! l1)"
     "handlers (leaves h' ! l') = handlers (leaves h1 ! l1) @ map ThenHandler ts"
     "express h' = express h1" "routers h' = routers h1"
    by blast+
  then show ?case unfolding a b c by simp
qed

lemma build_chain_InrD:
  assumes "build_chain ss m p ts t h0 = (Inr x, h)"
  shows "x = length (express h0) \<and>
     express h = express h0 @
       [map (\<lambda>s. UseLayer [FunArg (ThenHandler s)]) ss @
        [RouteLayer m p (map ThenHandler ts @ [terminal_handler t])]]"
proof -
  let ?h1 = "h0\<lparr>express := express h0 @ [[]],
        routers := routers h0 @ [\<lparr>consumed = False, router = length (express h0)\<rparr>]\<rparr>"
  let ?r0 = "length (routers h0)"
  let ?e = "length (express h0)"
  from assms have "and_then (Router_thens ?r0 ss) (\<lambda>r.
     and_then (Router_endpoint m r p) (\<lambda>l0.
     and_then (LeafRouter_thens l0 ts) (\<lambda>l.
     and_then (LeafRouter_end l t) (\<lambda>_.
       Router_toExpress r)))) ?h1 = (Inr x, h)"
    unfolding build_chain_def by (simp add: and_then_Inr[OF new_Router_None])
  then obtain r h2 where 2: "Router_thens ?r0 ss ?h1 = (Inr r, h2)"
    and "and_then (Router_endpoint m r p) (\<lambda>l0.
     and_then (LeafRouter_thens l0 ts) (\<lambda>l.
     and_then (LeafRouter_end l t) (\<lambda>_.
       Router_toExpress r))) h2 = (Inr x, h)"
    by (blast dest: and_then_InrD)
  then obtain l0 h3 where 3: "Router_endpoint m r p h2 = (Inr l0, h3)"
    and "and_then (LeafRouter_thens l0 ts) (\<lambda>l.
     and_then (LeafRouter_end l t) (\<lambda>_.
       Router_toExpress r)) h3 = (Inr x, h)"
    by (blast dest: and_then_InrD)
  then obtain l h4 where 4: "LeafRouter_thens l0 ts h3 = (Inr l, h4)"
    and "and_then (LeafRouter_end l t) (\<lambda>_. Router_toExpress r) h4 = (Inr x, h)"
    by (blast dest: and_then_InrD)
  then obtain u h5 where 5: "LeafRouter_end l t h4 = (Inr u, h5)"
    and 6: "Router_toExpress r h5 = (Inr x, h)"
    by (blast dest: and_then_InrD)
  have "router (routers ?h1 ! ?r0) = ?e" and "express ?h1 = express h0 @ [[]]"
    by simp_all
  with Router_thens_InrD[OF 2]
  have r2: "router (routers h2 ! r) = ?e"
    and e2: "express h2 = express h0 @ [map (\<lambda>s. UseLayer [FunArg (ThenHandler s)]) ss]"
    by simp_all
  from Router_endpoint_InrD[OF 3]
  have "l0 = length (leaves h2)" and "leaves h3 = leaves h2 @
      [\<lparr>consumed = False, leaf_router = router (routers h2 ! r),
        leaf_method = m, leaf_path = p, handlers = []\<rparr>]"
    and e3: "express h3 = express h2" and r3: "routers h3 = routers h2"
    by simp_all
  with r2 have l3: "leaves h3 ! l0 = \<lparr>consumed = False, leaf_router = ?e,
              leaf_method = m, leaf_path = p, handlers = []\<rparr>"
    by simp
  from LeafRouter_thens_InrD[OF 4]
  have "leaf_router (leaves h4 ! l) = leaf_router (leaves h3 ! l0)"
    "leaf_method (leaves h4 ! l) = leaf_method (leaves h3 ! l0)"
    "leaf_path (leaves h4 ! l) = leaf_path (leaves h3 ! l0)"
    "handlers (leaves h4 ! l) = handlers (leaves h3 ! l0) @ map ThenHandler ts"
    and e4': "express h4 = express h3" and r4': "routers h4 = routers h3"
    by blast+
  then have l4: "leaf_router (leaves h4 ! l) = ?e" "leaf_method (leaves h4 ! l) = m"
      "leaf_path (leaves h4 ! l) = p" "handlers (leaves h4 ! l) = map ThenHandler ts"
    unfolding l3 by simp_all
  from e4' e3 e2 have e4: "express h4 = express h0 @ [map (\<lambda>s. UseLayer [FunArg (ThenHandler s)]) ss]"
    by simp
  from r4' r3 have r4: "routers h4 = routers h2"
    by simp
  have "express h5 = (express h4)[leaf_router (leaves h4 ! l) :=
              express h4 ! leaf_router (leaves h4 ! l) @
              [RouteLayer (leaf_method (leaves h4 ! l)) (leaf_path (leaves h4 ! l))
                 (handlers (leaves h4 ! l) @ [terminal_handler t])]] \<and>
        routers h5 = routers h4"
  proof (cases t)
    case (Return f)
    with 5 have "LeafRouter_return l f h4 = (Inr u, h5)"
      by simp
    from LeafRouter_return_InrD[OF this] Return show ?thesis
      by simp
  next
    case (Finish f)
    with 5 have "LeafRouter_finish l f h4 = (Inr u, h5)"
      by simp
    from LeafRouter_finish_InrD[OF this] Finish show ?thesis
      by simp
  qed
  then have "express h5 = (express h4)[leaf_router (leaves h4 ! l) :=
              express h4 ! leaf_router (leaves h4 ! l) @
              [RouteLayer (leaf_method (leaves h4 ! l)) (leaf_path (leaves h4 ! l))
                 (handlers (leaves h4 ! l) @ [terminal_handler t])]]"
    and "routers h5 = routers h4"
    by simp_all
  then have e5: "express h5 = express h0 @
       [map (\<lambda>s. UseLayer [FunArg (ThenHandler s)]) ss @
        [RouteLayer m p (map ThenHandler ts @ [terminal_handler t])]]"
    and r5: "routers h5 = routers h2"
    unfolding l4 e4 r4 by simp_all
  from Router_toExpress_InrD[OF 6] have "x = router (routers h5 ! r)" and "express h = express h5"
    by simp_all
  with r5 r2 e5 show ?thesis
    by simp
qed

lemma run_handlers_then:
  "run_handlers v env raw (ThenHandler s # hs) req res =
     (case call1 v env s req of (req', c) \<Rightarrow>
        (case await c of
           Value _ \<Rightarrow>
             (let rest = run_handlers v env raw hs req' res in rest\<lparr>called := s # called rest\<rparr>)
         | Raised e \<Rightarrow>
             \<lparr>final_req = req', final_res = res, called = [s],
              status = (if v = Part_000 then Forwarded e else Stopped)\<rparr>
         | Never \<Rightarrow>
             \<lparr>final_req = req', final_res = res, called = [s], status = Stopped\<rparr>))"
  by (cases v)
     (simp_all add: then_handler_index_def then_handler_part000_def Let_def
        split: prod.splits awaited.splits)

lemma called_run_handlers_terminal:
  "called (run_handlers v env raw [terminal_handler t] req res) = [terminal_fn t]"
  by (cases v; cases t)
     (simp_all add: return_handler_index_def return_handler_part000_def
        finish_handler_index_def finish_handler_part000_def Let_def
        split: prod.splits awaited.splits)

lemma called_run_handlers_chain:
  "called (run_handlers v env raw (map ThenHandler ts @ [terminal_handler t]) req res) =
     in_order_until_failure v env ts req @
     (if completes_all v env ts req then [terminal_fn t] else [])"
proof (induction ts arbitrary: req)
  case Nil
  show ?case
    using called_run_handlers_terminal[of v env raw t req res]
    by simp
next
  case (Cons t ts)
  obtain req' c where c: "call1 v env t req = (req', c)"
    by (cases "call1 v env t req")
  show ?case
  proof (cases "await c")
    case (Value a)
    with c Cons.IH[of req'] show ?thesis
      by (simp add: run_handlers_then Let_def del: run_handlers.simps(2))
  next
    case (Raised e)
    with c show ?thesis
      by (simp add: run_handlers_then del: run_handlers.simps(2))
  next
    case Never
    with c show ?thesis
      by (simp add: run_handlers_then del: run_handlers.simps(2))
  qed
qed

lemma in_order_append:
  "in_order_until_failure v env (xs @ ys) req =
     (if completes_all v env xs req
      then xs @ in_order_until_failure v env ys (request_after v env xs req)
      else in_order_until_failure v env xs req)"
  by (induction xs arbitrary: req) (auto split: prod.splits awaited.splits)

lemma completes_all_append:
  "completes_all v env (xs @ ys) req =
     (completes_all v env xs req \<and> completes_all v env ys (request_after v env xs req))"
  by (induction xs arbitrary: req) (auto split: prod.splits awaited.splits)

lemma not_completes_failure:
  assumes "await (snd (call1 v env s (request_after v env pre req))) = Raised e"
  shows "\<not> completes_all v env (pre @ s # post) req"
  using assms by (auto simp: completes_all_append split: prod.splits)

lemma in_order_complete:
  "completes_all v env xs req \<Longrightarrow> in_order_until_failure v env xs req = xs"
  using in_order_append[of v env xs "[]" req] by simp

lemma in_order_failure:
  assumes "completes_all v env pre req"
    and "await (snd (call1 v env s (request_after v env pre req))) = Raised e"
  shows "in_order_until_failure v env (pre @ s # post) req = pre @ [s]"
  using assms by (auto simp: in_order_append split: prod.splits)

lemma dispatch_middlewares:
  assumes "req_method (request_after v env ss req) = m"
    and "matches p (url (request_after v env ss req))"
  shows "\<exists>r. dispatch v env raw matches
            (map (\<lambda>s. UseLayer [FunArg (ThenHandler s)]) ss @ [RouteLayer m p hs]) req res = Some r \<and>
          called r =
            (if completes_all v env ss req
             then ss @ called (run_handlers v env raw hs (request_after v env ss req) res)
             else in_order_until_failure v env ss req)"
  using assms
proof (induction ss arbitrary: req)
  case Nil
  then show ?case by (simp add: Let_def)
next
  case (Cons s ss)
  obtain req' c where c: "call1 v env s req = (req', c)"
    by (cases "call1 v env s req")
  show ?case
  proof (cases "await c")
    case (Value a)
    from Cons.prems c have "req_method (request_after v env ss req') = m"
      and "matches p (url (request_after v env ss req'))"
      by simp_all
    from Cons.IH[OF this] obtain r where
      "dispatch v env raw matches
         (map (\<lambda>s. UseLayer [FunArg (ThenHandler s)]) ss @ [RouteLayer m p hs]) req' res = Some r"
      and "called r =
            (if completes_all v env ss req'
             then ss @ called (run_handlers v env raw hs (request_after v env ss req') res)
             else in_order_until_failure v env ss req')"
      by blast
    with c Value show ?thesis
      by (simp add: run_handlers_then Let_def del: run_handlers.simps(2))
  next
    case (Raised e)
    with c show ?thesis
      by (simp add: run_handlers_then Let_def del: run_handlers.simps(2))
  next
    case Never
    with c show ?thesis
      by (simp add: run_handlers_then Let_def del: run_handlers.simps(2))
  qed
qed

text \<open>
  The order is the order of the writes into the Express router. \<^verbatim>\<open>then\<close> of a \<^verbatim>\<open>Router\<close>
  writes its closure at once; the closures of a \<^verbatim>\<open>LeafRouter\<close> are written together,
  by \<^verbatim>\<open>return\<close> or \<^verbatim>\<open>finish\<close>. So a step given to a \<^verbatim>\<open>Router\<close> while an endpoint of that
  router is still open stands before the steps of the endpoint:
  \<^verbatim>\<open>const r = new Router(); const l = r.get("/hello").then(f1); r.then(f2); l.return(f3);\<close>
\<close>

lemma leaf_steps_are_written_by_return:
  "express (run [New_Router None, R_get 0 ''/hello'', L_then 0 (UserFn 1), R_then 0 (UserFn 2),
                 L_return 1 (UserFn 3)] (empty_store :: (nat, nat) store)) =
     [[UseLayer [FunArg (ThenHandler (UserFn 2))],
       RouteLayer M_get ''/hello'' [ThenHandler (UserFn 1), ReturnHandler (UserFn 3)]]]"
  by (simp add: eval_defs)

text \<open>
  Claim C2. Take the chain
  \<^verbatim>\<open>new Router().then(s1)...then(sk)\<close>, then \<^verbatim>\<open>[m](p).then(t1)...then(tn)\<close>, ended by
  \<^verbatim>\<open>return\<close> or \<^verbatim>\<open>finish\<close>, and compiled by \<^verbatim>\<open>toExpress\<close>; and a request that has the method
  and matches the path of the endpoint when it reaches it. The engine, on the compiled
  list, invokes the steps in the order of their registration, each on the request the
  one before left, up to the first that does not complete, and the terminal function
  after them when all complete. So when every step completes, the functions invoked are
  \<open>s1, ..., sk, t1, ..., tn\<close> and the terminal function, in this order; and when a step
  fails after those before it completed, the functions invoked are the steps up to it,
  and none after it.
\<close>

theorem chain_runs_steps_in_order:
  assumes "build_chain ss m p ts t h0 = (Inr x, h)"
    and "req_method (request_after v env ss req) = m"
    and "matches p (url (request_after v env ss req))"
  shows "\<exists>r. dispatch v env raw matches (express h ! x) req res = Some r \<and>
           called r = in_order_until_failure v env (ss @ ts) req @
             (if completes_all v env (ss @ ts) req then [terminal_fn t] else []) \<and>
           (completes_all v env (ss @ ts) req \<longrightarrow> called r = ss @ ts @ [terminal_fn t]) \<and>
           (\<forall>pre s post e.
              ss @ ts = pre @ s # post \<and> completes_all v env pre req \<and>
              await (snd (call1 v env s (request_after v env pre req))) = Raised e
              \<longrightarrow> called r = pre @ [s])"
proof -
  from build_chain_InrD[OF assms(1)]
  have "express h ! x = map (\<lambda>s. UseLayer [FunArg (ThenHandler s)]) ss @
        [RouteLayer m p (map ThenHandler ts @ [terminal_handler t])]"
    by simp
  with dispatch_middlewares[where matches = matches and p = p and raw = raw and res = res
      and hs = "map ThenHandler ts @ [terminal_handler t]", OF assms(2) assms(3)]
  obtain r where d: "dispatch v env raw matches (express h ! x) req res = Some r"
    and "called r =
            (if completes_all v env ss req
             then ss @ called (run_handlers v env raw (map ThenHandler ts @ [terminal_handler t])
                        (request_after v env ss req) res)
             else in_order_until_failure v env ss req)"
    by auto
  then have c: "called r = in_order_until_failure v env (ss @ ts) req @
             (if completes_all v env (ss @ ts) req then [terminal_fn t] else [])"
    by (simp add: called_run_handlers_chain in_order_append[of v env ss ts] completes_all_append)
  have "completes_all v env (ss @ ts) req \<longrightarrow> called r = ss @ ts @ [terminal_fn t]"
    using c by (simp add: in_order_complete)
  moreover have "\<forall>pre s post e.
              ss @ ts = pre @ s # post \<and> completes_all v env pre req \<and>
              await (snd (call1 v env s (request_after v env pre req))) = Raised e
              \<longrightarrow> called r = pre @ [s]"
    using c by (auto simp: in_order_failure not_completes_failure)
  ultimately show ?thesis using d c by blast
qed

text \<open>The definitions a concrete request is evaluated with.\<close>

lemmas run_defs = then_handler_index_def then_handler_part000_def return_handler_index_def
  return_handler_part000_def finish_handler_index_def finish_handler_part000_def
  marshalParams_index_def marshalQuery_index_def marshalBody_index_def
  marshalParams_part000_def marshalQuery_part000_def marshalBody_part000_def marshal_step_def
  example_env_def example_raw_def example_request_def no_response_def

theorem chain_runs_steps_in_order_witness:
  "fst (build_chain [UserFn 1] M_get ''/hello'' [MarshalParams 1, UserFn 0, UserFn 1]
     (Return (UserFn 1)) (empty_store :: (nat, nat) store)) = Inr 0 \<and>
   express (snd (build_chain [UserFn 1] M_get ''/hello'' [MarshalParams 1, UserFn 0, UserFn 1]
     (Return (UserFn 1)) (empty_store :: (nat, nat) store))) =
     [[UseLayer [FunArg (ThenHandler (UserFn 1))],
       RouteLayer M_get ''/hello''
         [ThenHandler (MarshalParams 1), ThenHandler (UserFn 0), ThenHandler (UserFn 1),
          ReturnHandler (UserFn 1)]]] \<and>
   req_method (request_after Part_000 example_env [UserFn 1] example_request) = M_get \<and>
   url (request_after Part_000 example_env [UserFn 1] example_request) = ''/hello'' \<and>
   completes_all Part_000 example_env [UserFn 1, MarshalParams 1] example_request \<and>
   await (snd (call1 Part_000 example_env (UserFn 0)
     (request_after Part_000 example_env [UserFn 1, MarshalParams 1] example_request))) =
     Raised ''denied'' \<and>
   map_option called
     (dispatch Part_000 example_env example_raw (=)
        (express (snd (build_chain [UserFn 1] M_get ''/hello''
           [MarshalParams 1, UserFn 0, UserFn 1] (Return (UserFn 1))
           (empty_store :: (nat, nat) store))) ! 0)
        example_request no_response) =
     Some [UserFn 1, MarshalParams 1, UserFn 0] \<and>
   fst (build_chain [UserFn 1] M_get ''/hello'' [MarshalParams 1] (Finish (UserFn 1))
     (empty_store :: (nat, nat) store)) = Inr 0 \<and>
   completes_all Part_000 example_env ([UserFn 1] @ [MarshalParams 1]) example_request \<and>
   map_option called
     (dispatch Part_000 example_env example_raw (=)
        (express (snd (build_chain [UserFn 1] M_get ''/hello'' [MarshalParams 1]
           (Finish (UserFn 1)) (empty_store :: (nat, nat) store))) ! 0)
        example_request no_response) =
     Some [UserFn 1, MarshalParams 1, UserFn 1]"
proof -
  let ?b1 = "build_chain [UserFn 1] M_get ''/hello'' [MarshalParams 1, UserFn 0, UserFn 1]
     (Return (UserFn 1)) (empty_store :: (nat, nat) store)"
  let ?b2 = "build_chain [UserFn 1] M_get ''/hello'' [MarshalParams 1] (Finish (UserFn 1))
     (empty_store :: (nat, nat) store)"
  have f1: "fst ?b1 = Inr 0"
    by (simp add: build_chain_def eval_defs)
  have e1: "express (snd ?b1) =
     [[UseLayer [FunArg (ThenHandler (UserFn 1))],
       RouteLayer M_get ''/hello''
         [ThenHandler (MarshalParams 1), ThenHandler (UserFn 0), ThenHandler (UserFn 1),
          ReturnHandler (UserFn 1)]]]"
    by (simp add: build_chain_def eval_defs)
  have f2: "fst ?b2 = Inr 0"
    by (simp add: build_chain_def eval_defs)
  from f1 have b1: "?b1 = (Inr 0, snd ?b1)"
    by (simp add: prod_eq_iff)
  from f2 have b2: "?b2 = (Inr 0, snd ?b2)"
    by (simp add: prod_eq_iff)
  have m: "req_method (request_after Part_000 example_env [UserFn 1] example_request) = M_get"
    by (simp add: run_defs)
  have u: "(=) ''/hello'' (url (request_after Part_000 example_env [UserFn 1] example_request))"
    by (simp add: run_defs)
  have c1: "completes_all Part_000 example_env [UserFn 1, MarshalParams 1] example_request"
    by (simp add: run_defs)
  have a1: "await (snd (call1 Part_000 example_env (UserFn 0)
     (request_after Part_000 example_env [UserFn 1, MarshalParams 1] example_request))) =
     Raised ''denied''"
    by (simp add: run_defs)
  have c2: "completes_all Part_000 example_env ([UserFn 1] @ [MarshalParams 1]) example_request"
    by (simp add: run_defs)
  from chain_runs_steps_in_order[where matches = "(=)" and p = "''/hello''", OF b1 m u,
      of example_raw no_response]
  obtain r1 where r1: "dispatch Part_000 example_env example_raw (=) (express (snd ?b1) ! 0)
        example_request no_response = Some r1"
    and all: "\<forall>pre s post e.
              [UserFn 1] @ [MarshalParams 1, UserFn 0, UserFn 1] = pre @ s # post \<and>
              completes_all Part_000 example_env pre example_request \<and>
              await (snd (call1 Part_000 example_env s
                (request_after Part_000 example_env pre example_request))) = Raised e
              \<longrightarrow> called r1 = pre @ [s]"
    by blast
  have split: "[UserFn 1] @ [MarshalParams 1, UserFn 0, UserFn 1] =
      [UserFn 1, MarshalParams 1] @ UserFn 0 # [UserFn (1::nat) :: (nat, nat) fn]"
    by simp
  from all split c1 a1 have "called r1 = [UserFn 1, MarshalParams 1] @ [UserFn 0]"
    by blast
  with r1 have d1: "map_option called
     (dispatch Part_000 example_env example_raw (=) (express (snd ?b1) ! 0)
        example_request no_response) =
     Some [UserFn 1, MarshalParams 1, UserFn 0]"
    by simp
  from chain_runs_steps_in_order[where matches = "(=)" and p = "''/hello''", OF b2 m u,
      of example_raw no_response] c2
  have d2: "map_option called
     (dispatch Part_000 example_env example_raw (=) (express (snd ?b2) ! 0)
        example_request no_response) =
     Some [UserFn 1, MarshalParams 1, UserFn 1]"
    by auto
  from f1 e1 m u c1 a1 d1 f2 c2 d2 show ?thesis
    by simp
qed

end
